theory Spec2Isabelle
  imports Complex_Main "HOL-Library.Char_ord" "HOL-Library.List_Lexorder"
begin

section \<open>Python strings\<close>

text \<open>
  A Python \<open>str\<close> is a sequence of code points. The model reads a \<^typ>\<open>char\<close> as one
  code point in the range 0..255 (Latin-1), so \<^term>\<open>length\<close> counts what Python's
  \<open>len\<close> counts. The character classes below are Python's, restricted to that range.
\<close>

definition dquote :: char where
  "dquote = CHR 0x22"

definition newline :: char where
  "newline = CHR 0x0A"

definition isspace :: "char \<Rightarrow> bool" where
  \<comment> \<open>\<open>str.isspace\<close>, which is also what \<open>str.strip()\<close> removes and what \<open>\\s\<close> matches\<close>
  "isspace c =
     (let n = (of_char c :: nat)
      in (9 \<le> n \<and> n \<le> 13) \<or> (28 \<le> n \<and> n \<le> 32) \<or> n = 133 \<or> n = 160)"

definition isdigit :: "char \<Rightarrow> bool" where
  \<comment> \<open>\<open>\\d\<close>: the decimal digits below code point 256 are 0 to 9\<close>
  "isdigit c = (let n = (of_char c :: nat) in 48 \<le> n \<and> n \<le> 57)"

definition isupper_az :: "char \<Rightarrow> bool" where
  \<comment> \<open>the character class \<open>[A-Z]\<close>\<close>
  "isupper_az c = (let n = (of_char c :: nat) in 65 \<le> n \<and> n \<le> 90)"

definition isword :: "char \<Rightarrow> bool" where
  \<comment> \<open>\<open>\\w\<close>: alphanumeric code points and the underscore\<close>
  "isword c =
     (let n = (of_char c :: nat)
      in (48 \<le> n \<and> n \<le> 57) \<or> (65 \<le> n \<and> n \<le> 90) \<or> n = 95 \<or> (97 \<le> n \<and> n \<le> 122)
         \<or> n = 170 \<or> n = 178 \<or> n = 179 \<or> n = 181 \<or> n = 185 \<or> n = 186
         \<or> (188 \<le> n \<and> n \<le> 190) \<or> (192 \<le> n \<and> n \<le> 214) \<or> (216 \<le> n \<and> n \<le> 246)
         \<or> 248 \<le> n)"

definition lower_char :: "char \<Rightarrow> char" where
  "lower_char c =
     (let n = (of_char c :: nat)
      in if (65 \<le> n \<and> n \<le> 90) \<or> (192 \<le> n \<and> n \<le> 214) \<or> (216 \<le> n \<and> n \<le> 222)
         then char_of (n + 32) else c)"

definition lower :: "string \<Rightarrow> string" where
  \<comment> \<open>\<open>str.lower()\<close>\<close>
  "lower s = map lower_char s"

definition strip :: "string \<Rightarrow> string" where
  \<comment> \<open>\<open>str.strip()\<close>\<close>
  "strip s = rev (dropWhile isspace (rev (dropWhile isspace s)))"

definition slice :: "string \<Rightarrow> nat \<Rightarrow> nat \<Rightarrow> string" where
  \<comment> \<open>\<open>text[a:b]\<close> for offsets \<open>0 \<le> a\<close>; \<open>b\<close> may lie beyond the end\<close>
  "slice text a b = take (b - a) (drop a text)"

definition rfind :: "char \<Rightarrow> string \<Rightarrow> nat \<Rightarrow> nat \<Rightarrow> nat option" where
  \<comment> \<open>\<open>text.rfind(c, lo, hi)\<close>: the highest index in \<open>[lo, hi)\<close> holding \<open>c\<close>;
      \<open>None\<close> stands for Python's \<open>-1\<close>\<close>
  "rfind c text lo hi = List.find (\<lambda>i. text ! i = c) (rev [lo ..< min hi (length text)])"

fun starts_with :: "string \<Rightarrow> string \<Rightarrow> bool" where
  "starts_with s [] = True"
| "starts_with [] (p # ps) = False"
| "starts_with (c # cs) (p # ps) = (c = p \<and> starts_with cs ps)"

fun contains :: "string \<Rightarrow> string \<Rightarrow> bool" where
  \<comment> \<open>\<open>pat in s\<close>\<close>
  "contains [] pat = (pat = [])"
| "contains (c # cs) pat = (starts_with (c # cs) pat \<or> contains cs pat)"

fun split_on :: "char \<Rightarrow> string \<Rightarrow> string list" where
  \<comment> \<open>\<open>s.split(sep)\<close> for a one-character separator\<close>
  "split_on sep [] = [[]]"
| "split_on sep (c # cs) =
     (if c = sep then [] # split_on sep cs
      else (case split_on sep cs of
              [] \<Rightarrow> [[c]]
            | p # ps \<Rightarrow> (c # p) # ps))"

fun join :: "string \<Rightarrow> string list \<Rightarrow> string" where
  \<comment> \<open>\<open>sep.join(parts)\<close>\<close>
  "join sep [] = []"
| "join sep [p] = p"
| "join sep (p # q # ps) = p @ sep @ join sep (q # ps)"

definition replace_char :: "char \<Rightarrow> char \<Rightarrow> string \<Rightarrow> string" where
  \<comment> \<open>\<open>s.replace(a, b)\<close> for one-character \<open>a\<close> and \<open>b\<close>\<close>
  "replace_char a b s = map (\<lambda>c. if c = a then b else c) s"

fun digit_string :: "nat \<Rightarrow> nat \<Rightarrow> string" where
  "digit_string 0 n = []"
| "digit_string (Suc fuel) n =
     (if n < 10 then [char_of (48 + n)]
      else digit_string fuel (n div 10) @ [char_of (48 + n mod 10)])"

definition str_nat :: "nat \<Rightarrow> string" where
  \<comment> \<open>\<open>str(i)\<close> for a non-negative integer; \<open>n + 1\<close> digits always suffice\<close>
  "str_nat n = digit_string (Suc n) n"

section \<open>Data model (schema.py)\<close>

text \<open>
  The pydantic models as records. Field names carry a prefix naming their class, since
  several classes share field names (and \<open>id\<close>, \<open>text\<close>, \<open>term\<close> and
  \<open>definition\<close> are not available as names). A \<open>datetime\<close> is a point in time, an
  embedding a list of floats; neither is computed with here.
\<close>

datatype PartyRole =
  SELLER | BUYER | PURCHASER | VENDOR | CONTRACTOR | LENDER | GUARANTOR | TRUSTEE | AGENT
  | ROLE_OTHER

datatype ClauseType =
  PARTIES | DEFINITIONS | PURCHASE_AND_SALE | PRICE | ADJUSTMENTS | CLOSING
  | CONDITIONS_PRECEDENT | REPRESENTATIONS_WARRANTIES | COVENANTS | INDEMNITIES | LIMITATIONS
  | GOVERNING_LAW | DISPUTE_RESOLUTION | NOTICES | TERMINATION | FORCE_MAJEURE | MISCELLANEOUS
  | OTHER

type_synonym datetime = nat

record Party =
  party_name :: string
  party_role :: PartyRole
  party_jurisdiction :: "string option"
  party_address :: "string option"
  party_entity_type :: "string option"

record Definition =
  def_term :: string
  def_definition :: string
  def_section_id :: "string option"

record Section =
  sec_id :: string
  sec_title :: string
  sec_text :: string
  sec_clause_type :: ClauseType
  sec_tags :: "string list"
  sec_definitions :: "string list"
  sec_parent_section :: "string option"
  sec_page_number :: "nat option"

record DocumentMetadata =
  md_document_id :: string
  md_title :: string
  md_document_type :: string
  md_jurisdiction :: string
  md_governing_law :: "string option"
  md_industry :: string
  md_effective_date :: "datetime option"
  md_execution_date :: "datetime option"
  md_termination_date :: "datetime option"
  md_parties :: "Party list"
  md_source_file :: string
  md_source_format :: string
  md_processing_date :: datetime

record LegalDocument =
  doc_metadata :: DocumentMetadata
  doc_sections :: "Section list"
  doc_definitions :: "Definition list"

record ChunkMetadata =
  cm_chunk_id :: string
  cm_document_id :: string
  cm_section_id :: string
  cm_chunk_index :: nat
  cm_chunk_type :: string
  cm_tags :: "string list"
  cm_source_citation :: string
  cm_heading_number :: "string option"
  cm_heading_level :: "nat option"
  cm_parent_heading_number :: "string option"

record ProcessedChunk =
  pc_metadata :: ChunkMetadata
  pc_content :: string
  pc_embedding :: "real list option"

section \<open>Clause classifiers (pdf_parser.py, xml_parser.py)\<close>

definition pdf_classify_clause_type :: "string \<Rightarrow> ClauseType" where
  "pdf_classify_clause_type title =
     (let title_lower = lower title
      in if contains title_lower ''purchase'' \<or> contains title_lower ''sale'' then PURCHASE_AND_SALE
         else if contains title_lower ''price'' \<or> contains title_lower ''payment'' then PRICE
         else if contains title_lower ''closing'' then CLOSING
         else if contains title_lower ''condition'' then CONDITIONS_PRECEDENT
         else if contains title_lower ''representation'' \<or> contains title_lower ''warrant''
           then REPRESENTATIONS_WARRANTIES
         else if contains title_lower ''covenant'' then COVENANTS
         else if contains title_lower ''indemnif'' then INDEMNITIES
         else if contains title_lower ''governing law'' then GOVERNING_LAW
         else if contains title_lower ''dispute'' \<or> contains title_lower ''arbitration''
           then DISPUTE_RESOLUTION
         else if contains title_lower ''notice'' then NOTICES
         else if contains title_lower ''termination'' then TERMINATION
         else OTHER)"

definition xml_classify_clause_type :: "string \<Rightarrow> string \<Rightarrow> ClauseType" where
  \<comment> \<open>\<open>content_lower\<close> is computed and not read\<close>
  "xml_classify_clause_type title content =
     (let title_lower = lower title;
          content_lower = lower content
      in if contains title_lower ''rate'' \<or> contains title_lower ''price'' then PRICE
         else if contains title_lower ''delivery'' \<or> contains title_lower ''sale''
           then PURCHASE_AND_SALE
         else if contains title_lower ''governing law'' then GOVERNING_LAW
         else if contains title_lower ''notice'' then NOTICES
         else if contains title_lower ''term'' \<or> contains title_lower ''termination''
           then TERMINATION
         else if contains title_lower ''assignment'' then MISCELLANEOUS
         else if contains title_lower ''audit'' then COVENANTS
         else if contains title_lower ''continuity'' \<or> contains title_lower ''service''
           then COVENANTS
         else OTHER)"

text \<open>
  A classifier as the specification describes it: an ordered list of rules, each a list
  of keywords with a clause type, tried in order on one string; the first rule with a
  keyword in the string decides, and no rule gives \<open>OTHER\<close>. \<open>pdf_rules\<close> is the rule list
  of the page-text adapter.
\<close>

fun first_match :: "(string list \<times> ClauseType) list \<Rightarrow> string \<Rightarrow> ClauseType" where
  "first_match [] s = OTHER"
| "first_match ((keywords, clause_type) # rules) s =
     (if list_ex (contains s) keywords then clause_type else first_match rules s)"

definition pdf_rules :: "(string list \<times> ClauseType) list" where
  "pdf_rules =
     [([''purchase'', ''sale''], PURCHASE_AND_SALE),
      ([''price'', ''payment''], PRICE),
      ([''closing''], CLOSING),
      ([''condition''], CONDITIONS_PRECEDENT),
      ([''representation'', ''warrant''], REPRESENTATIONS_WARRANTIES),
      ([''covenant''], COVENANTS),
      ([''indemnif''], INDEMNITIES),
      ([''governing law''], GOVERNING_LAW),
      ([''dispute'', ''arbitration''], DISPUTE_RESOLUTION),
      ([''notice''], NOTICES),
      ([''termination''], TERMINATION)]"

section \<open>Structural segmenter for page text (pdf_parser.py)\<close>

definition title_tail :: "string \<Rightarrow> string option" where
  \<comment> \<open>what \<open>\\s+([A-Z][^.]+)\<close> captures at the start of \<open>s\<close>: after the whitespace, a
      capital and every character up to the next dot (at least one)\<close>
  "title_tail s =
     (if takeWhile isspace s = [] then None
      else (case dropWhile isspace s of
              [] \<Rightarrow> None
            | u # r \<Rightarrow>
                if isupper_az u \<and> takeWhile (\<lambda>x. x \<noteq> CHR ''.'') r \<noteq> []
                then Some (u # takeWhile (\<lambda>x. x \<noteq> CHR ''.'') r)
                else None))"

definition after_title_tail :: "string \<Rightarrow> string" where
  \<comment> \<open>what follows the capture of \<open>title_tail\<close>: empty, or starting with a dot\<close>
  "after_title_tail s = dropWhile (\<lambda>x. x \<noteq> CHR ''.'') (dropWhile isspace s)"

definition match_numbered_title :: "string \<Rightarrow> (string \<times> string) option" where
  \<comment> \<open>groups 1 and 2 of \<open>^(\\d+)\\.\\s+([A-Z][^.]+)\\.\<close>\<close>
  "match_numbered_title line =
     (let d = takeWhile isdigit line
      in if d = [] then None
         else (case dropWhile isdigit line of
                 [] \<Rightarrow> None
               | c # r \<Rightarrow>
                   if c \<noteq> CHR ''.'' then None
                   else (case title_tail r of
                           None \<Rightarrow> None
                         | Some t \<Rightarrow> if after_title_tail r = [] then None else Some (d, t))))"

definition match_dotted_title :: "string \<Rightarrow> (string \<times> string) option" where
  \<comment> \<open>groups 1 and 2 of \<open>^(\\d+\\.\\d+)\\s+([A-Z][^.]+)\<close>\<close>
  "match_dotted_title line =
     (let d1 = takeWhile isdigit line
      in if d1 = [] then None
         else (case dropWhile isdigit line of
                 [] \<Rightarrow> None
               | c # r \<Rightarrow>
                   if c \<noteq> CHR ''.'' \<or> takeWhile isdigit r = [] then None
                   else (case title_tail (dropWhile isdigit r) of
                           None \<Rightarrow> None
                         | Some t \<Rightarrow> Some (d1 @ ''.'' @ takeWhile isdigit r, t))))"

definition match_lettered_title :: "string \<Rightarrow> (string \<times> string) option" where
  \<comment> \<open>groups 1 and 2 of \<open>^([A-Z]+)\\.\\s+([A-Z][^.]+)\<close>\<close>
  "match_lettered_title line =
     (let u = takeWhile isupper_az line
      in if u = [] then None
         else (case dropWhile isupper_az line of
                 [] \<Rightarrow> None
               | c # r \<Rightarrow>
                   if c \<noteq> CHR ''.'' then None
                   else (case title_tail r of None \<Rightarrow> None | Some t \<Rightarrow> Some (u, t))))"

definition section_match :: "string \<Rightarrow> (string \<times> string) option" where
  \<comment> \<open>the loop over \<open>self.section_patterns\<close>: the first pattern that matches\<close>
  "section_match line =
     (case match_numbered_title line of
        Some m \<Rightarrow> Some m
      | None \<Rightarrow>
          (case match_dotted_title line of
             Some m \<Rightarrow> Some m
           | None \<Rightarrow> match_lettered_title line))"

definition extract_tags_from_title :: "string \<Rightarrow> string list" where
  "extract_tags_from_title title =
     (let title_lower = lower title
      in (if contains title_lower ''price'' then [''pricing''] else [])
         @ (if contains title_lower ''closing'' then [''closing''] else [])
         @ (if contains title_lower ''condition'' then [''conditions''] else [])
         @ (if contains title_lower ''indemnif'' then [''indemnification''] else [])
         @ (if contains title_lower ''termination'' then [''termination''] else []))"

fun find_page_number_from :: "nat \<Rightarrow> string \<Rightarrow> string list \<Rightarrow> nat option" where
  "find_page_number_from page_num line [] = None"
| "find_page_number_from page_num line (page_text # rest) =
     (if contains page_text line then Some (page_num + 1)
      else find_page_number_from (page_num + 1) line rest)"

definition find_page_number :: "string \<Rightarrow> string list \<Rightarrow> nat option" where
  "find_page_number line page_texts = find_page_number_from 0 line page_texts"

fun findall_quoted :: "nat \<Rightarrow> string \<Rightarrow> string list" where
  \<comment> \<open>\<open>re.findall(r'"([A-Z][^"]*)"', text)\<close>; \<open>skip\<close> counts the characters of a match
      still to pass over\<close>
  "findall_quoted skip [] = []"
| "findall_quoted (Suc skip) (c # cs) = findall_quoted skip cs"
| "findall_quoted 0 (c # cs) =
     (case cs of
        [] \<Rightarrow> []
      | u # r \<Rightarrow>
          if c = dquote \<and> isupper_az u \<and> dropWhile (\<lambda>x. x \<noteq> dquote) r \<noteq> []
          then (u # takeWhile (\<lambda>x. x \<noteq> dquote) r)
                 # findall_quoted (length (takeWhile (\<lambda>x. x \<noteq> dquote) r) + 2) cs
          else findall_quoted 0 cs)"

fun findall_caps :: "nat \<Rightarrow> char option \<Rightarrow> string \<Rightarrow> string list" where
  \<comment> \<open>\<open>re.findall(r'\\b([A-Z]{2,})\\b', text)\<close>: the runs of two or more capitals with
      no word character before or after. \<open>prev\<close> is the character before the position.\<close>
  "findall_caps skip prev [] = []"
| "findall_caps (Suc skip) prev (c # cs) = findall_caps skip (Some c) cs"
| "findall_caps 0 prev (c # cs) =
     (let run = takeWhile isupper_az (c # cs);
          rest = dropWhile isupper_az (c # cs)
      in if 2 \<le> length run
            \<and> (case prev of None \<Rightarrow> True | Some p \<Rightarrow> \<not> isword p)
            \<and> (case rest of [] \<Rightarrow> True | n # _ \<Rightarrow> \<not> isword n)
         then run # findall_caps (length run - 1) (Some c) cs
         else findall_caps 0 (Some c) cs)"

definition extract_referenced_definitions ::
  "(string set \<Rightarrow> string list) \<Rightarrow> string \<Rightarrow> string list" where
  \<comment> \<open>ends with \<open>list(set(definitions))\<close>, whose order is the parameter \<open>list_of\<close>\<close>
  "extract_referenced_definitions list_of text =
     (let quoted_terms = findall_quoted 0 text;
          caps_terms = findall_caps 0 None text
      in list_of (set (quoted_terms @ caps_terms)))"

record scan_state =
  sections :: "Section list"
  current_section :: "Section option"
  current_content :: "string list"
  section_counter :: nat

definition scan_line :: "string list \<Rightarrow> scan_state \<Rightarrow> string \<Rightarrow> scan_state" where
  \<comment> \<open>one pass of the loop over the lines in \<open>_extract_sections\<close>\<close>
  "scan_line page_texts st raw_line =
     (let line = strip raw_line
      in if line = [] then st
         else (case section_match line of
                 Some (section_id, group2) \<Rightarrow>
                   (let title = strip group2
                    in \<lparr>sections =
                          (case current_section st of
                             Some cs \<Rightarrow> sections st @ [cs]
                           | None \<Rightarrow> sections st),
                        current_section =
                          Some \<lparr>sec_id = section_id, sec_title = title, sec_text = [],
                                sec_clause_type = pdf_classify_clause_type title,
                                sec_tags = extract_tags_from_title title,
                                sec_definitions = [], sec_parent_section = None,
                                sec_page_number = find_page_number line page_texts\<rparr>,
                        current_content = [line],
                        section_counter = section_counter st + 1\<rparr>)
               | None \<Rightarrow>
                   (case current_section st of
                      Some cs \<Rightarrow> st\<lparr>current_content := current_content st @ [line]\<rparr>
                    | None \<Rightarrow> st)))"

definition extract_sections ::
  "(string set \<Rightarrow> string list) \<Rightarrow> string \<Rightarrow> string list \<Rightarrow> Section list" where
  "extract_sections list_of text page_texts =
     (let lines = split_on newline text;
          st = foldl (scan_line page_texts)
                 \<lparr>sections = [], current_section = None, current_content = [],
                  section_counter = 0\<rparr> lines
      in case current_section st of
           Some cs \<Rightarrow>
             sections st
               @ [cs\<lparr>sec_text := join [newline] (current_content st),
                     sec_definitions :=
                       extract_referenced_definitions list_of
                         (join [newline] (current_content st))\<rparr>]
         | None \<Rightarrow> sections st)"

definition texts_empty :: "scan_state \<Rightarrow> bool" where
  \<comment> \<open>no section of the state, open or closed, has any text\<close>
  "texts_empty st =
     (list_all (\<lambda>s. sec_text s = []) (sections st)
      \<and> (case current_section st of None \<Rightarrow> True | Some cs \<Rightarrow> sec_text cs = []))"

section \<open>Terminology tables (schema.py)\<close>

definition LEGAL_TERM_SYNONYMS :: "(string \<times> string list) list" where
  \<comment> \<open>the dictionary in insertion order, which is the order \<open>.items()\<close> iterates in\<close>
  "LEGAL_TERM_SYNONYMS =
     [(''purchase_price_adjustment'',
         [''true-up'', ''price adjustment'', ''purchase price true-up'']),
      (''material_adverse_effect'', [''material adverse change'', ''MAC'', ''MAE'']),
      (''conditions_precedent'', [''closing conditions'', ''conditions to closing'']),
      (''representations_warranties'',
         [''reps and warranties'', ''representations'', ''warranties'']),
      (''indemnification'', [''indemnity'', ''indemnities'', ''hold harmless'']),
      (''force_majeure'', [''act of god'', ''unforeseeable circumstances'']),
      (''governing_law'', [''applicable law'', ''choice of law'']),
      (''dispute_resolution'', [''arbitration'', ''litigation'', ''mediation'']),
      (''termination'', [''expiry'', ''expiration'', ''end'']),
      (''assignment'', [''transfer'', ''novation''])]"

definition INFRA_FINANCE_TERMS :: "(string \<times> string) list" where
  "INFRA_FINANCE_TERMS =
     [(''CROD'', ''Contract Rate of Delivery''),
      (''transmission_service'', ''electrical transmission services''),
      (''point_of_delivery'', ''delivery point''),
      (''billing_demand'', ''maximum demand charge''),
      (''energy_charge'', ''electricity usage charge''),
      (''curtailment'', ''reduction in delivery''),
      (''liquidated_damages'', ''predetermined damages''),
      (''patronage'', ''cooperative member benefits''),
      (''operating_procedures'', ''operational guidelines'')]"

section \<open>Terminology normalizer (ingestion.py)\<close>

fun any_synonym_in :: "string list \<Rightarrow> string \<Rightarrow> bool" where
  \<comment> \<open>the inner loop of \<open>_normalize_tags\<close>: whether it reaches \<open>tags.add\<close> (and \<open>break\<close>)\<close>
  "any_synonym_in [] content_lower = False"
| "any_synonym_in (synonym # rest) content_lower =
     (if contains content_lower (lower synonym) then True
      else any_synonym_in rest content_lower)"

fun add_synonym_tags ::
  "(string \<times> string list) list \<Rightarrow> string \<Rightarrow> string set \<Rightarrow> string set" where
  "add_synonym_tags [] content_lower tags = tags"
| "add_synonym_tags ((canonical_term, synonyms) # rest) content_lower tags =
     add_synonym_tags rest content_lower
       (if any_synonym_in synonyms content_lower then insert canonical_term tags else tags)"

fun add_finance_tags :: "(string \<times> string) list \<Rightarrow> string \<Rightarrow> string set \<Rightarrow> string set" where
  "add_finance_tags [] content_lower tags = tags"
| "add_finance_tags ((term, description) # rest) content_lower tags =
     add_finance_tags rest content_lower
       (if contains content_lower (lower term) \<or> contains content_lower (lower description)
        then insert (replace_char (CHR '' '') (CHR ''_'') (lower term)) tags
        else tags)"

text \<open>
  \<open>_normalize_tags\<close> returns \<open>list(tags)\<close>: the elements of the set, each once, in an order
  the language leaves open. The order is a parameter \<open>list_of\<close> of the model; what is
  known of it is \<open>enumerates\<close>.
\<close>

definition enumerates :: "(string set \<Rightarrow> string list) \<Rightarrow> bool" where
  "enumerates list_of = (\<forall>S. finite S \<longrightarrow> set (list_of S) = S \<and> distinct (list_of S))"

definition normalize_tags_set :: "string list \<Rightarrow> string \<Rightarrow> string set" where
  \<comment> \<open>the set \<open>tags\<close> when \<open>_normalize_tags\<close> returns\<close>
  "normalize_tags_set existing_tags content =
     (let tags = set existing_tags;
          content_lower = lower content;
          tags = add_synonym_tags LEGAL_TERM_SYNONYMS content_lower tags;
          tags = add_finance_tags INFRA_FINANCE_TERMS content_lower tags
      in tags)"

definition normalize_tags ::
  "(string set \<Rightarrow> string list) \<Rightarrow> string list \<Rightarrow> string \<Rightarrow> string list" where
  "normalize_tags list_of existing_tags content =
     list_of (normalize_tags_set existing_tags content)"

definition upper_char :: "char \<Rightarrow> char" where
  \<comment> \<open>\<open>str.upper()\<close> on one ASCII character\<close>
  "upper_char c =
     (let n = (of_char c :: nat) in if 97 \<le> n \<and> n \<le> 122 then char_of (n - 32) else c)"

definition is_cased :: "char \<Rightarrow> bool" where
  "is_cased c =
     (let n = (of_char c :: nat) in (65 \<le> n \<and> n \<le> 90) \<or> (97 \<le> n \<and> n \<le> 122))"

fun title_from :: "bool \<Rightarrow> string \<Rightarrow> string" where
  \<comment> \<open>\<open>str.title()\<close>: a letter after a cased letter is lower-cased, any other is
      upper-cased. Written for ASCII: it is applied to the keys of the table above only.\<close>
  "title_from previous_is_cased [] = []"
| "title_from previous_is_cased (c # cs) =
     (if previous_is_cased then lower_char c else upper_char c) # title_from (is_cased c) cs"

definition str_title :: "string \<Rightarrow> string" where
  "str_title s = title_from False s"

fun sub_ignorecase :: "string \<Rightarrow> string \<Rightarrow> nat \<Rightarrow> string \<Rightarrow> string" where
  \<comment> \<open>\<open>re.compile(re.escape(synonym), re.IGNORECASE).sub(repl, text)\<close> for a non-empty
      synonym: matches are taken leftmost and do not overlap. \<open>skip\<close> counts the
      characters of a match still to pass over.\<close>
  "sub_ignorecase synonym repl skip [] = []"
| "sub_ignorecase synonym repl (Suc skip) (c # cs) = sub_ignorecase synonym repl skip cs"
| "sub_ignorecase synonym repl 0 (c # cs) =
     (if synonym \<noteq> [] \<and> starts_with (lower (c # cs)) (lower synonym)
      then repl @ sub_ignorecase synonym repl (length synonym - 1) cs
      else c # sub_ignorecase synonym repl 0 cs)"

fun sub_synonyms :: "string \<Rightarrow> string list \<Rightarrow> string \<Rightarrow> string" where
  \<comment> \<open>the inner loop of \<open>_normalize_terminology\<close>\<close>
  "sub_synonyms canonical_term [] normalized_text = normalized_text"
| "sub_synonyms canonical_term (synonym # rest) normalized_text =
     sub_synonyms canonical_term rest
       (sub_ignorecase synonym (str_title (replace_char (CHR ''_'') (CHR '' '') canonical_term)) 0
          normalized_text)"

fun sub_terms :: "(string \<times> string list) list \<Rightarrow> string \<Rightarrow> string" where
  \<comment> \<open>the outer loop of \<open>_normalize_terminology\<close>\<close>
  "sub_terms [] normalized_text = normalized_text"
| "sub_terms ((canonical_term, synonyms) # rest) normalized_text =
     sub_terms rest (sub_synonyms canonical_term synonyms normalized_text)"

definition normalize_terminology :: "string \<Rightarrow> string" where
  "normalize_terminology text = sub_terms LEGAL_TERM_SYNONYMS text"

text \<open>
  \<open>_normalize_document\<close> changes the document it is given in place and returns it. The
  model keeps documents in a store, addressed by references: the function takes the
  reference and the store, and returns a reference and the store after the two loops.
  A document owns its sections, so they are part of its value.
\<close>

type_synonym ref = nat

type_synonym store = "ref \<Rightarrow> LegalDocument"

definition set_section_tags :: "(string set \<Rightarrow> string list) \<Rightarrow> Section \<Rightarrow> Section" where
  \<comment> \<open>the body of the first loop\<close>
  "set_section_tags list_of section =
     section\<lparr>sec_tags := normalize_tags list_of (sec_tags section) (sec_text section)\<rparr>"

definition set_section_text :: "Section \<Rightarrow> Section" where
  \<comment> \<open>the body of the second loop\<close>
  "set_section_text section = section\<lparr>sec_text := normalize_terminology (sec_text section)\<rparr>"

definition normalize_document ::
  "(string set \<Rightarrow> string list) \<Rightarrow> ref \<Rightarrow> store \<Rightarrow> ref \<times> store" where
  "normalize_document list_of document h =
     (let h1 = h(document := (h document)
                 \<lparr>doc_sections := map (set_section_tags list_of) (doc_sections (h document))\<rparr>);
          h2 = h1(document := (h1 document)
                 \<lparr>doc_sections := map set_section_text (doc_sections (h1 document))\<rparr>)
      in (document, h2))"

section \<open>Chunker: the sliding window\<close>

definition max_chunk_size :: nat where
  "max_chunk_size = 1000"

definition chunk_overlap :: nat where
  "chunk_overlap = 100"

definition window_end :: "string \<Rightarrow> nat \<Rightarrow> nat" where
  \<comment> \<open>the value of \<open>end\<close> when the window starting at \<open>start\<close> is cut\<close>
  "window_end text start =
     (let end0 = start + max_chunk_size
      in if end0 < length text then
           (case rfind (CHR ''.'') text (start + max_chunk_size - 100) end0 of
              None \<Rightarrow> end0
            | Some sentence_end \<Rightarrow> if sentence_end > start then sentence_end + 1 else end0)
         else end0)"

lemma find_Some_mem: "List.find P xs = Some x \<Longrightarrow> x \<in> set xs \<and> P x"
  by (induction xs) (auto split: if_splits)

lemma rfind_Some_bounds:
  "rfind c text lo hi = Some i \<Longrightarrow> lo \<le> i \<and> i < hi \<and> i < length text \<and> text ! i = c"
  unfolding rfind_def by (auto dest!: find_Some_mem)

lemma window_end_lower: "start + 901 \<le> window_end text start"
  unfolding window_end_def max_chunk_size_def Let_def
  by (auto split: option.splits dest: rfind_Some_bounds)

lemma window_end_upper: "window_end text start \<le> start + 1000"
  unfolding window_end_def max_chunk_size_def Let_def
  by (auto split: option.splits dest: rfind_Some_bounds)

text \<open>
  The loop of \<open>_split_text_with_overlap\<close>. Offsets are naturals: by
  \<open>window_end_lower\<close> the end of a window is at least 901, so \<open>end - chunk_overlap\<close>
  never goes below zero and the truncating subtraction is exact.
\<close>

function split_loop :: "string \<Rightarrow> nat \<Rightarrow> string list \<Rightarrow> string list" where
  "split_loop text start chunks =
     (if start < length text then
        (let end = window_end text start;
             chunk_text = strip (slice text start end);
             chunks' = (if chunk_text \<noteq> [] then chunks @ [chunk_text] else chunks);
             start' = end - chunk_overlap
         in if start' \<ge> length text then chunks' else split_loop text start' chunks')
      else chunks)"
  by pat_completeness auto
termination
proof (relation "measure (\<lambda>(t, start, chunks). length t - start)")
  show "wf (measure (\<lambda>(t :: string, start :: nat, chunks :: string list). length t - start))"
    by simp
next
  fix t :: string and start :: nat and chunks :: "string list"
    and x :: nat and xa :: string and xb :: "string list" and xc :: nat
  assume "start < length t" and "x = window_end t start"
    and "xc = x - chunk_overlap" and "\<not> length t \<le> xc"
  moreover have "start + 901 \<le> window_end t start" by (rule window_end_lower)
  ultimately show "((t, xc, xb), t, start, chunks)
      \<in> measure (\<lambda>(t, start, chunks). length t - start)"
    by (simp add: chunk_overlap_def)
qed

definition split_text_with_overlap :: "string \<Rightarrow> string list" where
  "split_text_with_overlap text = split_loop text 0 []"

text \<open>
  The windows the loop cuts, as pairs \<open>(start, end)\<close> in the order it cuts them: the same
  loop, recording the offsets instead of the trimmed text.
\<close>

function windows :: "string \<Rightarrow> nat \<Rightarrow> (nat \<times> nat) list" where
  "windows text start =
     (if start < length text then
        (let end = window_end text start;
             start' = end - chunk_overlap
         in (start, end) # (if start' \<ge> length text then [] else windows text start'))
      else [])"
  by pat_completeness auto
termination
proof (relation "measure (\<lambda>(t, start). length t - start)")
  show "wf (measure (\<lambda>(t :: string, start :: nat). length t - start))"
    by simp
next
  fix t :: string and start :: nat and x :: nat and xa :: nat
  assume "start < length t" and "x = window_end t start"
    and "xa = x - chunk_overlap" and "\<not> length t \<le> xa"
  moreover have "start + 901 \<le> window_end t start" by (rule window_end_lower)
  ultimately show "((t, xa), t, start) \<in> measure (\<lambda>(t, start). length t - start)"
    by (simp add: chunk_overlap_def)
qed

definition window_text :: "string \<Rightarrow> nat \<times> nat \<Rightarrow> string" where
  \<comment> \<open>\<open>text[start:end]\<close> of a window, before \<open>strip()\<close>\<close>
  "window_text text w = slice text (fst w) (snd w)"

definition remove_overlaps :: "string list \<Rightarrow> string" where
  \<comment> \<open>a list of window contents put back together: the first whole, each later one without
      the \<open>chunk_overlap\<close> characters it shares with its predecessor\<close>
  "remove_overlaps cs = (case cs of [] \<Rightarrow> [] | c # rest \<Rightarrow> c @ concat (map (drop chunk_overlap) rest))"

definition blank :: "string \<Rightarrow> bool" where
  \<comment> \<open>empty or whitespace only: the strings \<open>s\<close> with \<open>not s.strip()\<close>\<close>
  "blank s = list_all isspace s"

section \<open>Chunker: heading anchors\<close>

definition is_linebreak :: "char \<Rightarrow> bool" where
  \<comment> \<open>the line boundaries of \<open>str.splitlines()\<close> below code point 256\<close>
  "is_linebreak c =
     (let n = (of_char c :: nat) in (10 \<le> n \<and> n \<le> 13) \<or> (28 \<le> n \<and> n \<le> 30) \<or> n = 133)"

fun splitlines_from :: "string \<Rightarrow> string \<Rightarrow> string list" where
  \<comment> \<open>\<open>cur\<close> is the line being read, reversed; a carriage return followed by a line feed
      is one boundary\<close>
  "splitlines_from cur [] = (if cur = [] then [] else [rev cur])"
| "splitlines_from cur [c] = (if is_linebreak c then [rev cur] else [rev (c # cur)])"
| "splitlines_from cur (c # d # cs) =
     (if c = CHR 0x0D \<and> d = CHR 0x0A then rev cur # splitlines_from [] cs
      else if is_linebreak c then rev cur # splitlines_from [] (d # cs)
      else splitlines_from (c # cur) (d # cs))"

definition splitlines :: "string \<Rightarrow> string list" where
  "splitlines s = splitlines_from [] s"

function dot_groups :: "string \<Rightarrow> string list \<times> string" where
  \<comment> \<open>the greedy repetition \<open>(?:\\.\\d+)*\<close>: the digit runs it takes, and what is left\<close>
  "dot_groups s =
     (case s of
        [] \<Rightarrow> ([], [])
      | c # r \<Rightarrow>
          if c = CHR ''.'' \<and> takeWhile isdigit r \<noteq> [] then
            (let (gs, rest) = dot_groups (dropWhile isdigit r)
             in (takeWhile isdigit r # gs, rest))
          else ([], s))"
  by pat_completeness auto
termination
  by (relation "measure length") (auto simp: less_Suc_eq_le length_dropWhile_le)

definition dotted_id_match :: "string \<Rightarrow> bool" where
  \<comment> \<open>\<open>re.match(r"^\\d+(?:\\.\\d+)+$", s)\<close>; \<open>$\<close> also matches before one final line feed\<close>
  "dotted_id_match s =
     (let d0 = takeWhile isdigit s;
          (gs, rest) = dot_groups (dropWhile isdigit s)
      in d0 \<noteq> [] \<and> gs \<noteq> [] \<and> (rest = [] \<or> rest = [newline]))"

definition heading_prefix :: "string \<Rightarrow> string option" where
  \<comment> \<open>group 1 of \<open>re.match(r"^(\\d+(?:\\.\\d+)+)\\b", line)\<close>. Every digit run is taken
      whole. When a word character follows the last run, \<open>\\b\<close> fails there and the
      matcher gives the last run back, ending before its dot.\<close>
  "heading_prefix line =
     (let d0 = takeWhile isdigit line;
          (gs, rest) = dot_groups (dropWhile isdigit line)
      in if d0 = [] \<or> gs = [] then None
         else if rest = [] \<or> \<not> isword (hd rest) then Some (join ''.'' (d0 # gs))
         else if length gs \<ge> 2 then Some (join ''.'' (d0 # butlast gs))
         else None)"

definition extract_heading_meta :: "string \<Rightarrow> (string \<times> nat \<times> string option) option" where
  "extract_heading_meta section_text =
     (let lines = map strip (filter (\<lambda>l. strip l \<noteq> []) (splitlines section_text))
      in case lines of
           [] \<Rightarrow> None
         | l0 # ls \<Rightarrow>
             (let m = (case heading_prefix l0 of
                         Some g \<Rightarrow> Some g
                       | None \<Rightarrow> (case ls of [] \<Rightarrow> None | l1 # _ \<Rightarrow> heading_prefix l1))
              in case m of
                   None \<Rightarrow> None
                 | Some num \<Rightarrow>
                     (let parts = split_on (CHR ''.'') num;
                          level = length parts;
                          parent = (if level > 1 then Some (join ''.'' (butlast parts)) else None)
                      in Some (num, level, parent))))"

section \<open>Chunker: sections, definitions, documents\<close>

definition heading_anchor :: "Section \<Rightarrow> string option \<times> nat option \<times> string option" where
  \<comment> \<open>the first part of \<open>_chunk_section\<close>: heading number, level and parent\<close>
  "heading_anchor section =
     (if dotted_id_match (strip (sec_id section)) then
        (let heading_number = strip (sec_id section);
             parts = split_on (CHR ''.'') heading_number;
             heading_level = length parts
         in (Some heading_number, Some heading_level,
             if heading_level > 1 then Some (join ''.'' (butlast parts)) else None))
      else
        (case extract_heading_meta (sec_text section) of
           None \<Rightarrow> (None, None, None)
         | Some (num, level, parent) \<Rightarrow> (Some num, Some level, parent)))"

definition clause_chunk ::
  "LegalDocument \<Rightarrow> Section \<Rightarrow> string option \<times> nat option \<times> string option \<Rightarrow> nat \<Rightarrow> string
     \<Rightarrow> ProcessedChunk" where
  \<comment> \<open>the \<open>ProcessedChunk(...)\<close> built in both branches of \<open>_chunk_section\<close>\<close>
  "clause_chunk document section anchor i content =
     \<lparr>pc_metadata =
        \<lparr>cm_chunk_id =
           md_document_id (doc_metadata document) @ ''_'' @ sec_id section @ ''_'' @ str_nat i,
         cm_document_id = md_document_id (doc_metadata document),
         cm_section_id = sec_id section,
         cm_chunk_index = i,
         cm_chunk_type = ''clause'',
         cm_tags = sec_tags section,
         cm_source_citation =
           md_title (doc_metadata document) @ '', Section '' @ sec_id section,
         cm_heading_number = fst anchor,
         cm_heading_level = fst (snd anchor),
         cm_parent_heading_number = snd (snd anchor)\<rparr>,
      pc_content = content,
      pc_embedding = None\<rparr>"

definition chunk_section :: "LegalDocument \<Rightarrow> Section \<Rightarrow> ProcessedChunk list" where
  "chunk_section document section =
     (let text = sec_text section;
          anchor = heading_anchor section
      in if length text \<le> max_chunk_size then [clause_chunk document section anchor 0 text]
         else map (\<lambda>(i, chunk_text). clause_chunk document section anchor i chunk_text)
                (enumerate 0 (split_text_with_overlap text)))"

definition hash_string :: "(string \<Rightarrow> string) \<Rightarrow> string \<Rightarrow> string" where
  \<comment> \<open>\<open>md5_hex t\<close> stands for \<open>hashlib.md5(t.encode()).hexdigest()\<close>, a library function\<close>
  "hash_string md5_hex t = take 8 (md5_hex t)"

definition chunk_definition ::
  "(string \<Rightarrow> string) \<Rightarrow> LegalDocument \<Rightarrow> Definition \<Rightarrow> ProcessedChunk" where
  "chunk_definition md5_hex document definition =
     (let content = [dquote] @ def_term definition @ [dquote] @ '' means ''
                      @ def_definition definition
      in \<lparr>pc_metadata =
            \<lparr>cm_chunk_id =
               md_document_id (doc_metadata document) @ ''_def_''
                 @ hash_string md5_hex (def_term definition),
             cm_document_id = md_document_id (doc_metadata document),
             cm_section_id =
               (case def_section_id definition of
                  None \<Rightarrow> ''definitions''
                | Some sid \<Rightarrow> if sid = [] then ''definitions'' else sid),
             cm_chunk_index = 0,
             cm_chunk_type = ''definition'',
             cm_tags =
               [''definition'',
                replace_char (CHR '' '') (CHR ''_'') (lower (def_term definition))],
             cm_source_citation =
               md_title (doc_metadata document) @ '', Definition: '' @ def_term definition,
             cm_heading_number = None,
             cm_heading_level = None,
             cm_parent_heading_number = None\<rparr>,
          pc_content = content,
          pc_embedding = None\<rparr>)"

fun extend_sections ::
  "LegalDocument \<Rightarrow> Section list \<Rightarrow> ProcessedChunk list \<Rightarrow> ProcessedChunk list" where
  \<comment> \<open>the first loop of \<open>chunk_document\<close>\<close>
  "extend_sections document [] chunks = chunks"
| "extend_sections document (section # rest) chunks =
     extend_sections document rest (chunks @ chunk_section document section)"

fun append_definitions ::
  "(string \<Rightarrow> string) \<Rightarrow> LegalDocument \<Rightarrow> Definition list \<Rightarrow> ProcessedChunk list
     \<Rightarrow> ProcessedChunk list" where
  \<comment> \<open>the second loop of \<open>chunk_document\<close>\<close>
  "append_definitions md5_hex document [] chunks = chunks"
| "append_definitions md5_hex document (definition # rest) chunks =
     append_definitions md5_hex document rest
       (chunks @ [chunk_definition md5_hex document definition])"

definition chunk_document :: "(string \<Rightarrow> string) \<Rightarrow> LegalDocument \<Rightarrow> ProcessedChunk list" where
  "chunk_document md5_hex document =
     append_definitions md5_hex document (doc_definitions document)
       (extend_sections document (doc_sections document) [])"

section \<open>Notions the results are stated with\<close>

definition dotted_numeric :: "string \<Rightarrow> bool" where
  \<comment> \<open>the strings of the form \<open>\\d+(\\.\\d+)+\<close>: two or more dot-separated components, each a
      non-empty run of digits\<close>
  "dotted_numeric s =
     (let parts = split_on (CHR ''.'') s
      in 2 \<le> length parts \<and> list_all (\<lambda>p. p \<noteq> [] \<and> list_all isdigit p) parts)"


definition synonym_tags :: "string \<Rightarrow> string set" where
  \<comment> \<open>the canonical terms with a synonym that occurs in the content, case ignored\<close>
  "synonym_tags content =
     {canon. \<exists>syns. (canon, syns) \<in> set LEGAL_TERM_SYNONYMS \<and>
        (\<exists>syn \<in> set syns. contains (lower content) (lower syn))}"

definition abbreviation_tags :: "string \<Rightarrow> string set" where
  \<comment> \<open>the tags of the abbreviations that occur in the content, by key or by expansion\<close>
  "abbreviation_tags content =
     {replace_char (CHR '' '') (CHR ''_'') (lower t) | t desc.
        (t, desc) \<in> set INFRA_FINANCE_TERMS \<and>
        (contains (lower content) (lower t) \<or> contains (lower content) (lower desc))}"


section \<open>Sample documents\<close>

text \<open>Concrete inputs on which the results below are instantiated.\<close>

definition example_metadata :: DocumentMetadata where
  "example_metadata =
     \<lparr>md_document_id = ''doc1'', md_title = ''Power Purchase Agreement'',
      md_document_type = ''Purchase Agreement'', md_jurisdiction = ''US'',
      md_governing_law = None, md_industry = ''Power'', md_effective_date = None,
      md_execution_date = None, md_termination_date = None, md_parties = [],
      md_source_file = ''doc1.pdf'', md_source_format = ''PDF'', md_processing_date = 0\<rparr>"

definition example_section :: "string \<Rightarrow> string \<Rightarrow> Section" where
  "example_section sid body =
     \<lparr>sec_id = sid, sec_title = ''Payment'', sec_text = body, sec_clause_type = PRICE,
      sec_tags = [''pricing''], sec_definitions = [], sec_parent_section = None,
      sec_page_number = None\<rparr>"

definition example_document :: "Section list \<Rightarrow> Definition list \<Rightarrow> LegalDocument" where
  "example_document secs defs =
     \<lparr>doc_metadata = example_metadata, doc_sections = secs, doc_definitions = defs\<rparr>"

definition leading_space_text :: string where
  \<comment> \<open>1001 characters: one space, then the letter a a thousand times\<close>
  "leading_space_text = CHR '' '' # replicate 1000 (CHR ''a'')"

definition example_md5 :: "string \<Rightarrow> string" where
  \<comment> \<open>a stand-in for the digest function where a concrete one is needed\<close>
  "example_md5 t = ''9f86d081884c7d659a2feaa0c55ad015''"

definition example_definition :: "string option \<Rightarrow> Definition" where
  "example_definition sid =
     \<lparr>def_term = ''Delivery Point'', def_definition = ''the point of interconnection.'',
      def_section_id = sid\<rparr>"

definition example_store :: store where
  \<comment> \<open>a store with one document at reference 0 and another at every other reference\<close>
  "example_store r =
     (if r = 0 then example_document [example_section ''3.1'' ''Disputes go to Arbitration.''] []
      else example_document [] [example_definition None])"

definition two_section_text :: string where
  \<comment> \<open>page text with two headings, each followed by one line of body\<close>
  "two_section_text =
     ''1.1 Scope'' @ [newline] @ ''The Seller delivers energy.'' @ [newline]
       @ ''1.2 Payment'' @ [newline] @ ''The Buyer pays monthly.''"


section \<open>Lemmas: strings and windows\<close>

declare split_loop.simps [simp del]
declare windows.simps [simp del]

lemma split_loop_windows:
  "split_loop t start chunks =
     chunks @ filter (\<lambda>c. c \<noteq> []) (map (\<lambda>w. strip (window_text t w)) (windows t start))"
proof (induction t start chunks rule: split_loop.induct)
  case (1 t start chunks)
  show ?case
  proof (cases "start < length t")
    case False
    then show ?thesis
      by (subst split_loop.simps, subst windows.simps) simp
  next
    case True
    note lt = True
    show ?thesis
    proof (cases "length t \<le> window_end t start - chunk_overlap")
      case True
      with lt show ?thesis
        by (subst split_loop.simps, subst windows.simps) (simp add: Let_def window_text_def)
    next
      case False
      with lt 1 show ?thesis
        by (subst split_loop.simps, subst windows.simps) (simp add: Let_def window_text_def)
    qed
  qed
qed


lemma strip_eq_Nil_iff: "strip s = [] \<longleftrightarrow> blank s"
proof -
  have "dropWhile isspace (rev (dropWhile isspace s)) = [] \<longleftrightarrow> dropWhile isspace s = []"
  proof
    assume "dropWhile isspace (rev (dropWhile isspace s)) = []"
    then have a: "\<forall>c \<in> set (dropWhile isspace s). isspace c"
      by (simp add: dropWhile_eq_Nil_conv)
    show "dropWhile isspace s = []"
    proof (rule ccontr)
      assume "dropWhile isspace s \<noteq> []"
      then have "\<not> isspace (hd (dropWhile isspace s))" by (rule hd_dropWhile)
      moreover have "hd (dropWhile isspace s) \<in> set (dropWhile isspace s)"
        using \<open>dropWhile isspace s \<noteq> []\<close> by simp
      ultimately show False using a by blast
    qed
  next
    assume "dropWhile isspace s = []"
    then show "dropWhile isspace (rev (dropWhile isspace s)) = []" by (simp only: rev.simps dropWhile.simps)
  qed
  then show ?thesis
    by (simp add: strip_def blank_def dropWhile_eq_Nil_conv list_all_iff)
qed

lemma strip_not_blank: "strip s \<noteq> [] \<Longrightarrow> \<not> blank (strip s)"
proof -
  assume ne: "strip s \<noteq> []"
  let ?r = "dropWhile isspace (rev (dropWhile isspace s))"
  from ne have r: "?r \<noteq> []" by (simp add: strip_def)
  then have "\<not> isspace (hd ?r)" by (rule hd_dropWhile)
  moreover have "hd ?r \<in> set (strip s)" using r by (simp add: strip_def)
  ultimately show ?thesis by (auto simp: blank_def list_all_iff)
qed

lemma windows_nonempty: "start < length t \<Longrightarrow> windows t start \<noteq> []"
  by (subst windows.simps) (simp add: Let_def)

lemma windows_hd: "start < length t \<Longrightarrow> fst (hd (windows t start)) = start"
  by (subst windows.simps) (simp add: Let_def)

lemma windows_starts_ge: "w \<in> set (windows t start) \<Longrightarrow> start \<le> fst w"
proof (induction t start rule: windows.induct)
  case (1 t start)
  show ?case
  proof (cases "start < length t")
    case False
    with 1 show ?thesis by (simp add: windows.simps)
  next
    case True
    have lo: "start + 901 \<le> window_end t start" by (rule window_end_lower)
    show ?thesis
    proof (cases "length t \<le> window_end t start - chunk_overlap")
      case True
      with \<open>start < length t\<close> "1.prems" show ?thesis
        by (subst (asm) windows.simps) (simp add: Let_def)
    next
      case False
      with \<open>start < length t\<close> "1.prems"
      have "w = (start, window_end t start)
            \<or> w \<in> set (windows t (window_end t start - chunk_overlap))"
        by (subst (asm) windows.simps) (simp add: Let_def)
      then show ?thesis
      proof
        assume "w = (start, window_end t start)"
        then show ?thesis by simp
      next
        assume "w \<in> set (windows t (window_end t start - chunk_overlap))"
        with "1.IH" [OF \<open>start < length t\<close> refl refl False]
        have "window_end t start - chunk_overlap \<le> fst w" by simp
        with lo show ?thesis by (simp add: chunk_overlap_def)
      qed
    qed
  qed
qed

lemma windows_starts_increase: "sorted_wrt (<) (map fst (windows t start))"
proof (induction t start rule: windows.induct)
  case (1 t start)
  show ?case
  proof (cases "start < length t")
    case False
    then show ?thesis by (simp add: windows.simps)
  next
    case True
    have lo: "start + 901 \<le> window_end t start" by (rule window_end_lower)
    show ?thesis
    proof (cases "length t \<le> window_end t start - chunk_overlap")
      case True
      with \<open>start < length t\<close> show ?thesis
        by (subst windows.simps) (simp add: Let_def)
    next
      case False
      have "\<forall>w \<in> set (windows t (window_end t start - chunk_overlap)). start < fst w"
      proof
        fix w assume "w \<in> set (windows t (window_end t start - chunk_overlap))"
        then have "window_end t start - chunk_overlap \<le> fst w" by (rule windows_starts_ge)
        with lo show "start < fst w" by (simp add: chunk_overlap_def)
      qed
      with False \<open>start < length t\<close> "1.IH" [OF \<open>start < length t\<close> refl refl False]
      show ?thesis
        by (subst windows.simps) (simp add: Let_def)
    qed
  qed
qed

lemma windows_last_reaches_end:
  "start < length t \<Longrightarrow> length t \<le> snd (last (windows t start))"
proof (induction t start rule: windows.induct)
  case (1 t start)
  have lo: "start + 901 \<le> window_end t start" by (rule window_end_lower)
  show ?case
  proof (cases "length t \<le> window_end t start - chunk_overlap")
    case True
    with "1.prems" show ?thesis
      by (subst windows.simps) (simp add: Let_def)
  next
    case False
    then have lt: "window_end t start - chunk_overlap < length t" by simp
    from "1.IH" [OF "1.prems" refl refl False lt] windows_nonempty [OF lt] False "1.prems"
    show ?thesis
      by (subst windows.simps) (simp add: Let_def)
  qed
qed

lemma windows_chain:
  "successively (\<lambda>w w'. fst w' + chunk_overlap = snd w) (windows t start)"
proof (induction t start rule: windows.induct)
  case (1 t start)
  show ?case
  proof (cases "start < length t")
    case False
    then show ?thesis by (simp add: windows.simps)
  next
    case True
    have lo: "start + 901 \<le> window_end t start" by (rule window_end_lower)
    show ?thesis
    proof (cases "length t \<le> window_end t start - chunk_overlap")
      case True
      with \<open>start < length t\<close> show ?thesis
        by (subst windows.simps) (simp add: Let_def)
    next
      case False
      then have lt: "window_end t start - chunk_overlap < length t" by simp
      from windows_nonempty [OF lt] windows_hd [OF lt]
      obtain w ws where ws: "windows t (window_end t start - chunk_overlap) = w # ws"
        and w: "fst w = window_end t start - chunk_overlap"
        by (cases "windows t (window_end t start - chunk_overlap)") auto
      from lo w have "fst w + chunk_overlap = window_end t start"
        by (simp add: chunk_overlap_def)
      with ws False \<open>start < length t\<close> "1.IH" [OF \<open>start < length t\<close> refl refl False]
      show ?thesis
        by (subst windows.simps) (simp add: Let_def)
    qed
  qed
qed

lemma windows_cover:
  "start < length t \<Longrightarrow>
   concat (map (\<lambda>w. drop chunk_overlap (window_text t w)) (windows t start))
     = drop (start + chunk_overlap) t"
proof (induction t start rule: windows.induct)
  case (1 t start)
  have lo: "start + 901 \<le> window_end t start" by (rule window_end_lower)
  have piece: "drop chunk_overlap (window_text t (start, window_end t start))
      = take (window_end t start - (start + chunk_overlap)) (drop (start + chunk_overlap) t)"
    by (simp add: window_text_def slice_def drop_take add.commute)
  show ?case
  proof (cases "length t \<le> window_end t start - chunk_overlap")
    case True
    with "1.prems" piece show ?thesis
      by (subst windows.simps) (simp add: Let_def)
  next
    case False
    then have lt: "window_end t start - chunk_overlap < length t" by simp
    have e: "window_end t start - chunk_overlap + chunk_overlap = window_end t start"
      using lo by (simp add: chunk_overlap_def)
    have "take (window_end t start - (start + chunk_overlap)) (drop (start + chunk_overlap) t)
            @ drop (window_end t start) t = drop (start + chunk_overlap) t"
    proof -
      have "drop (window_end t start) t
          = drop (window_end t start - (start + chunk_overlap)) (drop (start + chunk_overlap) t)"
        using lo by (simp add: chunk_overlap_def)
      then show ?thesis by (simp only: append_take_drop_id)
    qed
    with "1.IH" [OF "1.prems" refl refl False lt] e piece False "1.prems"
    show ?thesis
      by (subst windows.simps) (simp add: Let_def)
  qed
qed

lemma last_dropWhile: "dropWhile P xs \<noteq> [] \<Longrightarrow> last (dropWhile P xs) = last xs"
  by (induction xs) (auto split: if_splits)

lemma hd_strip: "strip s \<noteq> [] \<Longrightarrow> \<not> isspace (hd (strip s))"
proof -
  assume ne: "strip s \<noteq> []"
  let ?d = "dropWhile isspace s"
  from ne have r: "dropWhile isspace (rev ?d) \<noteq> []" by (simp add: strip_def)
  have d: "?d \<noteq> []"
  proof
    assume "?d = []"
    then have "dropWhile isspace (rev ?d) = []" by (simp only: rev.simps dropWhile.simps)
    with r show False by contradiction
  qed
  have "hd (strip s) = last (dropWhile isspace (rev ?d))"
    using r by (simp add: strip_def hd_rev)
  also have "\<dots> = last (rev ?d)" using r by (rule last_dropWhile)
  also have "\<dots> = hd ?d" using d by (simp add: last_rev)
  finally show ?thesis using hd_dropWhile [OF d] by simp
qed

lemma blank_strip_subset: "\<not> blank s \<Longrightarrow> strip s \<noteq> []"
  by (simp add: strip_eq_Nil_iff)

lemma split_text_windows:
  "split_text_with_overlap t =
     filter (\<lambda>c. c \<noteq> []) (map (\<lambda>w. strip (window_text t w)) (windows t 0))"
  by (simp add: split_text_with_overlap_def split_loop_windows)

lemma split_chunk_not_blank:
  "c \<in> set (split_text_with_overlap t) \<Longrightarrow> c \<noteq> [] \<and> \<not> blank c \<and> \<not> isspace (hd c)"
  by (auto simp: split_text_windows strip_not_blank hd_strip)

lemma blank_slice: "blank t \<Longrightarrow> blank (window_text t w)"
  by (auto simp: blank_def window_text_def slice_def list_all_iff dest: in_set_takeD in_set_dropD)

lemma split_blank: "blank t \<Longrightarrow> split_text_with_overlap t = []"
proof -
  assume b: "blank t"
  have "\<forall>w \<in> set (windows t 0). strip (window_text t w) = []"
    using b by (simp add: strip_eq_Nil_iff blank_slice)
  then show ?thesis
    by (simp add: split_text_windows filter_empty_conv)
qed

lemma rfind_absent: "c \<notin> set t \<Longrightarrow> rfind c t lo hi = None"
  by (auto simp: rfind_def find_None_iff)

lemma window_end_no_dot: "CHR ''.'' \<notin> set t \<Longrightarrow> window_end t start = start + 1000"
  by (simp add: window_end_def max_chunk_size_def rfind_absent Let_def)

lemma windows_1001:
  assumes "length t = 1001"
  shows "windows t 0 = [(0, window_end t 0), (window_end t 0 - 100, window_end t (window_end t 0 - 100))]"
proof -
  let ?e = "window_end t 0"
  have lo: "901 \<le> ?e" using window_end_lower [of 0 t] by simp
  have hi: "?e \<le> 1000" using window_end_upper [of t 0] by simp
  have lo2: "?e - 100 + 901 \<le> window_end t (?e - 100)" by (rule window_end_lower)
  have a: "?e - chunk_overlap < length t" "\<not> length t \<le> ?e - chunk_overlap" "0 < length t"
    using assms hi by (simp_all add: chunk_overlap_def)
  have b: "length t \<le> window_end t (?e - chunk_overlap) - chunk_overlap"
    using assms lo lo2 by (simp add: chunk_overlap_def)
  have w2: "windows t (?e - chunk_overlap)
      = [(?e - chunk_overlap, window_end t (?e - chunk_overlap))]"
    by (subst windows.simps) (simp add: Let_def a b)
  have "windows t 0 = (0, ?e) # windows t (?e - chunk_overlap)"
    using a by (subst windows.simps) (simp add: Let_def)
  with w2 show ?thesis by (simp add: chunk_overlap_def)
qed


lemma chunk_section_long_contents:
  "max_chunk_size < length (sec_text s) \<Longrightarrow>
   map pc_content (chunk_section d s) = split_text_with_overlap (sec_text s)"
proof -
  assume "max_chunk_size < length (sec_text s)"
  then have "map pc_content (chunk_section d s)
      = map snd (enumerate 0 (split_text_with_overlap (sec_text s)))"
    by (simp add: chunk_section_def Let_def clause_chunk_def split_def comp_def)
  then show ?thesis by (simp add: enumerate_eq_zip)
qed

lemma chunk_section_short:
  "length (sec_text s) \<le> max_chunk_size \<Longrightarrow>
   chunk_section d s = [clause_chunk d s (heading_anchor s) 0 (sec_text s)]"
  by (simp add: chunk_section_def Let_def)



lemma blank_replicate_space: "blank (replicate n (CHR '' ''))"
  by (simp add: blank_def list_all_iff isspace_def)

lemma not_isspace_a: "\<not> isspace (CHR ''a'')"
  by (simp add: isspace_def)

lemma strip_replicate_a: "strip (replicate n (CHR ''a'')) = replicate n (CHR ''a'')"
  by (simp add: strip_def dropWhile_replicate not_isspace_a)

lemma split_leading_space_text:
  "split_text_with_overlap leading_space_text
     = [replicate 999 (CHR ''a''), replicate 101 (CHR ''a'')]"
proof -
  let ?t = leading_space_text
  have len: "length ?t = 1001" by (simp add: leading_space_text_def)
  have nodot: "CHR ''.'' \<notin> set ?t" by (simp add: leading_space_text_def)
  have e: "window_end ?t 0 = 1000" "window_end ?t 900 = 1900"
    using window_end_no_dot [OF nodot] by simp_all
  have w: "windows ?t 0 = [(0, 1000), (900, 1900)]"
    using windows_1001 [OF len] by (simp add: e)
  have "window_text ?t (0, 1000) = CHR '' '' # replicate 999 (CHR ''a'')"
    by (simp add: window_text_def slice_def leading_space_text_def)
  then have c1: "strip (window_text ?t (0, 1000)) = replicate 999 (CHR ''a'')"
    using strip_replicate_a [of 999]
    by (simp add: strip_def isspace_def)
  have "window_text ?t (900, 1900) = replicate 101 (CHR ''a'')"
    by (simp add: window_text_def slice_def leading_space_text_def)
  then have c2: "strip (window_text ?t (900, 1900)) = replicate 101 (CHR ''a'')"
    by (simp add: strip_replicate_a)
  show ?thesis
    by (simp add: split_text_windows w c1 c2)
qed

section \<open>Lemmas: chunking a document\<close>

lemma extend_sections_concat:
  "extend_sections d secs chunks = chunks @ concat (map (chunk_section d) secs)"
  by (induction secs arbitrary: chunks) simp_all

lemma append_definitions_map:
  "append_definitions H d defs chunks = chunks @ map (chunk_definition H d) defs"
  by (induction defs arbitrary: chunks) simp_all

lemma chunk_document_eq:
  "chunk_document H d =
     concat (map (chunk_section d) (doc_sections d)) @ map (chunk_definition H d) (doc_definitions d)"
  by (simp add: chunk_document_def extend_sections_concat append_definitions_map)

lemma chunk_section_type:
  "c \<in> set (chunk_section d s) \<Longrightarrow> cm_chunk_type (pc_metadata c) = ''clause''"
  by (auto simp: chunk_section_def Let_def clause_chunk_def split: if_splits)

lemma chunk_definition_type:
  "cm_chunk_type (pc_metadata (chunk_definition H d df)) = ''definition''"
  by (simp add: chunk_definition_def)

lemma definition_chunks_of_document:
  "filter (\<lambda>c. cm_chunk_type (pc_metadata c) = ''definition'') (chunk_document H d)
     = map (chunk_definition H d) (doc_definitions d)"
proof -
  have "filter (\<lambda>c. cm_chunk_type (pc_metadata c) = ''definition'')
          (concat (map (chunk_section d) (doc_sections d))) = []"
    by (auto simp: filter_empty_conv dest: chunk_section_type)
  moreover have "filter (\<lambda>c. cm_chunk_type (pc_metadata c) = ''definition'')
          (map (chunk_definition H d) (doc_definitions d))
        = map (chunk_definition H d) (doc_definitions d)"
    by (simp add: filter_id_conv chunk_definition_type)
  ultimately show ?thesis by (simp add: chunk_document_eq)
qed

section \<open>Lemmas: heading anchors\<close>

declare dot_groups.simps [simp del]

lemma split_on_nonempty: "split_on sep s \<noteq> []"
  by (induction s) (auto split: list.splits)

lemma split_on_no_sep: "p \<in> set (split_on sep s) \<Longrightarrow> sep \<notin> set p"
  by (induction s arbitrary: p) (auto split: if_splits list.splits)

lemma join_Cons: "join [sep] (p # ps) = p @ concat (map ((#) sep) ps)"
  by (induction ps arbitrary: p) simp_all

lemma join_split_on: "join [sep] (split_on sep s) = s"
proof (induction s)
  case Nil
  show ?case by simp
next
  case (Cons c s)
  obtain p ps where ps: "split_on sep s = p # ps"
    using split_on_nonempty [of sep s] by (cases "split_on sep s") auto
  with Cons show ?case by (auto simp: join_Cons)
qed

lemma join_butlast_last:
  "2 \<le> length ps \<Longrightarrow> join sep ps = join sep (butlast ps) @ sep @ last ps"
proof (induction sep ps rule: join.induct)
  case (3 sep p q ps)
  show ?case
  proof (cases ps)
    case Nil
    then show ?thesis by simp
  next
    case (Cons r rs)
    with 3 show ?thesis by simp
  qed
qed simp_all

lemma split_on_length: "sep \<in> set s \<Longrightarrow> 2 \<le> length (split_on sep s)"
proof (induction s)
  case Nil
  then show ?case by simp
next
  case (Cons c s)
  obtain p ps where ps: "split_on sep s = p # ps"
    using split_on_nonempty [of sep s] by (cases "split_on sep s") auto
  show ?case
  proof (cases "c = sep")
    case True
    then show ?thesis by (simp add: ps)
  next
    case False
    with Cons ps show ?thesis by auto
  qed
qed

lemma not_isdigit_dot: "\<not> isdigit (CHR ''.'')"
  by (simp add: isdigit_def)

lemma isdigit_not_isspace: "isdigit c \<Longrightarrow> \<not> isspace c"
  by (auto simp: isdigit_def isspace_def Let_def)

lemma takeWhile_digits_groups:
  "list_all isdigit p \<Longrightarrow>
   takeWhile isdigit (p @ concat (map ((#) (CHR ''.'')) ps)) = p"
  by (cases ps) (auto simp: list_all_iff takeWhile_append2 not_isdigit_dot)

lemma dropWhile_digits_groups:
  "list_all isdigit p \<Longrightarrow>
   dropWhile isdigit (p @ concat (map ((#) (CHR ''.'')) ps))
     = concat (map ((#) (CHR ''.'')) ps)"
  by (cases ps) (auto simp: list_all_iff dropWhile_append2 not_isdigit_dot)

lemma dot_groups_of_parts:
  "list_all (\<lambda>p. p \<noteq> [] \<and> list_all isdigit p) ps \<Longrightarrow>
   dot_groups (concat (map ((#) (CHR ''.'')) ps)) = (ps, [])"
proof (induction ps)
  case Nil
  show ?case by (simp add: dot_groups.simps)
next
  case (Cons p ps)
  then have p: "p \<noteq> []" "list_all isdigit p"
    and ps: "list_all (\<lambda>p. p \<noteq> [] \<and> list_all isdigit p) ps" by simp_all
  have t: "takeWhile isdigit (p @ concat (map ((#) (CHR ''.'')) ps)) = p"
    using p(2) by (rule takeWhile_digits_groups)
  have d: "dropWhile isdigit (p @ concat (map ((#) (CHR ''.'')) ps))
      = concat (map ((#) (CHR ''.'')) ps)"
    using p(2) by (rule dropWhile_digits_groups)
  show ?case
    by (subst dot_groups.simps) (simp add: t d p Cons.IH [OF ps])
qed

lemma dotted_numeric_parts:
  assumes "dotted_numeric s"
  obtains p ps where "split_on (CHR ''.'') s = p # ps" and "ps \<noteq> []"
    and "p \<noteq> []" and "list_all isdigit p"
    and "list_all (\<lambda>p. p \<noteq> [] \<and> list_all isdigit p) ps"
    and "s = p @ concat (map ((#) (CHR ''.'')) ps)"
proof -
  from assms obtain p ps where sp: "split_on (CHR ''.'') s = p # ps"
    by (cases "split_on (CHR ''.'') s") (auto simp: dotted_numeric_def)
  from assms sp have "ps \<noteq> []" "p \<noteq> []" "list_all isdigit p"
    "list_all (\<lambda>p. p \<noteq> [] \<and> list_all isdigit p) ps"
    by (auto simp: dotted_numeric_def)
  moreover have "s = p @ concat (map ((#) (CHR ''.'')) ps)"
    using join_split_on [of "CHR ''.''" s] by (simp add: sp join_Cons)
  ultimately show ?thesis using sp that by blast
qed

lemma dotted_numeric_match: "dotted_numeric s \<Longrightarrow> dotted_id_match s"
proof -
  assume "dotted_numeric s"
  then obtain p ps where ps: "ps \<noteq> []" and p: "p \<noteq> []" "list_all isdigit p"
    and all: "list_all (\<lambda>p. p \<noteq> [] \<and> list_all isdigit p) ps"
    and s: "s = p @ concat (map ((#) (CHR ''.'')) ps)"
    by (rule dotted_numeric_parts)
  show ?thesis
    unfolding dotted_id_match_def s
    by (simp add: takeWhile_digits_groups [OF p(2)] dropWhile_digits_groups [OF p(2)]
        dot_groups_of_parts [OF all] p ps)
qed

lemma strip_id:
  "s \<noteq> [] \<Longrightarrow> \<not> isspace (hd s) \<Longrightarrow> \<not> isspace (last s) \<Longrightarrow> strip s = s"
proof -
  assume ne: "s \<noteq> []" and h: "\<not> isspace (hd s)" and l: "\<not> isspace (last s)"
  from ne h have d: "dropWhile isspace s = s" by (cases s) auto
  from ne l have "dropWhile isspace (rev s) = rev s" by (cases "rev s") auto
  with d show ?thesis by (simp add: strip_def)
qed

lemma dotted_numeric_strip: "dotted_numeric s \<Longrightarrow> strip s = s"
proof -
  assume "dotted_numeric s"
  then obtain p ps where ps: "ps \<noteq> []" and p: "p \<noteq> []" "list_all isdigit p"
    and all: "list_all (\<lambda>p. p \<noteq> [] \<and> list_all isdigit p) ps"
    and s: "s = p @ concat (map ((#) (CHR ''.'')) ps)"
    by (rule dotted_numeric_parts)
  have ne: "s \<noteq> []" using p s by simp
  have "hd s = hd p" using p s by simp
  moreover have "isdigit (hd p)" using p by (cases p) simp_all
  ultimately have h: "\<not> isspace (hd s)" by (simp add: isdigit_not_isspace)
  from ps obtain qs q where qs: "ps = qs @ [q]" by (cases ps rule: rev_cases) auto
  with all have q: "q \<noteq> []" "list_all isdigit q" by simp_all
  have "last s = last q" using s qs q by simp
  moreover have "isdigit (last q)" using q by (cases q rule: rev_cases) simp_all
  ultimately have l: "\<not> isspace (last s)" by (simp add: isdigit_not_isspace)
  from ne h l show ?thesis by (rule strip_id)
qed


lemma chunk_section_anchor:
  "c \<in> set (chunk_section d s) \<Longrightarrow>
   (cm_heading_number (pc_metadata c), cm_heading_level (pc_metadata c),
    cm_parent_heading_number (pc_metadata c)) = heading_anchor s"
  by (auto simp: chunk_section_def Let_def clause_chunk_def split: if_splits)

lemma heading_anchor_dotted:
  assumes "dotted_numeric (sec_id s)"
  shows "heading_anchor s =
     (Some (sec_id s), Some (length (split_on (CHR ''.'') (sec_id s))),
      Some (join ''.'' (butlast (split_on (CHR ''.'') (sec_id s)))))"
proof -
  from assms have "2 \<le> length (split_on (CHR ''.'') (sec_id s))"
    by (simp add: dotted_numeric_def Let_def)
  then show ?thesis
    by (simp add: heading_anchor_def dotted_numeric_strip [OF assms]
        dotted_numeric_match [OF assms] Let_def)
qed

lemma dot_groups_hd:
  "dot_groups x = (gs, rest) \<Longrightarrow> gs \<noteq> [] \<Longrightarrow> CHR ''.'' \<in> set x"
  by (subst (asm) dot_groups.simps) (auto split: list.splits if_splits prod.splits)

lemma dotted_id_match_has_dot: "dotted_id_match x \<Longrightarrow> CHR ''.'' \<in> set x"
proof -
  assume m: "dotted_id_match x"
  obtain gs rest where g: "dot_groups (dropWhile isdigit x) = (gs, rest)"
    by (cases "dot_groups (dropWhile isdigit x)")
  with m have "gs \<noteq> []" by (simp add: dotted_id_match_def Let_def)
  with g have "CHR ''.'' \<in> set (dropWhile isdigit x)" by (rule dot_groups_hd)
  then show ?thesis by (rule set_dropWhileD)
qed

lemma join_has_sep: "ps \<noteq> [] \<Longrightarrow> sep \<in> set (join [sep] (p # ps))"
  by (cases ps) simp_all

lemma heading_prefix_has_dot: "heading_prefix l = Some num \<Longrightarrow> CHR ''.'' \<in> set num"
proof -
  assume h: "heading_prefix l = Some num"
  obtain gs rest where g: "dot_groups (dropWhile isdigit l) = (gs, rest)"
    by (cases "dot_groups (dropWhile isdigit l)")
  from h g have "(gs \<noteq> [] \<and> num = join ''.'' (takeWhile isdigit l # gs))
      \<or> (butlast gs \<noteq> [] \<and> num = join ''.'' (takeWhile isdigit l # butlast gs))"
    by (cases gs rule: rev_cases; cases "butlast gs")
       (auto simp: heading_prefix_def Let_def split: if_splits)
  then show ?thesis using join_has_sep by fastforce
qed

lemma extract_heading_meta_level:
  "extract_heading_meta t = Some (num, level, parent) \<Longrightarrow> 2 \<le> level"
proof -
  assume e: "extract_heading_meta t = Some (num, level, parent)"
  then obtain l where "heading_prefix l = Some num"
    and "level = length (split_on (CHR ''.'') num)"
    by (auto simp: extract_heading_meta_def Let_def split: list.splits option.splits)
  then show ?thesis
    using split_on_length [OF heading_prefix_has_dot] by simp
qed

lemma chunk_section_dotted_heading:
  assumes dn: "dotted_numeric (sec_id s)" and c: "c \<in> set (chunk_section d s)"
  shows "cm_heading_number (pc_metadata c) = Some (sec_id s) \<and>
         cm_heading_level (pc_metadata c) = Some (length (split_on (CHR ''.'') (sec_id s))) \<and>
         cm_parent_heading_number (pc_metadata c)
           = Some (join ''.'' (butlast (split_on (CHR ''.'') (sec_id s)))) \<and>
         sec_id s = join ''.'' (butlast (split_on (CHR ''.'') (sec_id s))) @ ''.''
                      @ last (split_on (CHR ''.'') (sec_id s)) \<and>
         CHR ''.'' \<notin> set (last (split_on (CHR ''.'') (sec_id s)))"
proof -
  let ?parts = "split_on (CHR ''.'') (sec_id s)"
  from chunk_section_anchor [OF c] heading_anchor_dotted [OF dn]
  have a: "cm_heading_number (pc_metadata c) = Some (sec_id s)"
    "cm_heading_level (pc_metadata c) = Some (length ?parts)"
    "cm_parent_heading_number (pc_metadata c) = Some (join ''.'' (butlast ?parts))"
    by simp_all
  from dn have two: "2 \<le> length ?parts" by (simp add: dotted_numeric_def Let_def)
  then have "?parts \<noteq> []" by auto
  then have "last ?parts \<in> set ?parts" by simp
  then have nodot: "CHR ''.'' \<notin> set (last ?parts)" by (rule split_on_no_sep)
  have "sec_id s = join ''.'' ?parts" by (simp add: join_split_on)
  also have "\<dots> = join ''.'' (butlast ?parts) @ ''.'' @ last ?parts"
    using two by (rule join_butlast_last)
  finally have "sec_id s = join ''.'' (butlast ?parts) @ ''.'' @ last ?parts" .
  with a nodot show ?thesis by simp
qed

lemma heading_anchor_level: "heading_anchor s = (n, Some l, p) \<Longrightarrow> 2 \<le> l"
proof (cases "dotted_id_match (strip (sec_id s))")
  case True
  assume "heading_anchor s = (n, Some l, p)"
  with True have "l = length (split_on (CHR ''.'') (strip (sec_id s)))"
    by (simp add: heading_anchor_def Let_def)
  with split_on_length [OF dotted_id_match_has_dot [OF True]] show ?thesis by simp
next
  case False
  assume "heading_anchor s = (n, Some l, p)"
  with False obtain num parent where "extract_heading_meta (sec_text s) = Some (num, l, parent)"
    by (auto simp: heading_anchor_def split: option.splits)
  then show ?thesis by (rule extract_heading_meta_level)
qed

lemma chunk_section_level_not_1:
  "c \<in> set (chunk_section d s) \<Longrightarrow> cm_heading_level (pc_metadata c) \<noteq> Some 1"
proof
  assume c: "c \<in> set (chunk_section d s)" and l: "cm_heading_level (pc_metadata c) = Some 1"
  from chunk_section_anchor [OF c] l
  have "heading_anchor s
      = (cm_heading_number (pc_metadata c), Some 1, cm_parent_heading_number (pc_metadata c))"
    by simp
  then have "2 \<le> (1::nat)" by (rule heading_anchor_level)
  then show False by simp
qed

section \<open>Lemmas: tag normalization\<close>

lemma any_synonym_in_iff:
  "any_synonym_in syns cl \<longleftrightarrow> (\<exists>syn \<in> set syns. contains cl (lower syn))"
  by (induction syns) auto

lemma add_synonym_tags_eq:
  "add_synonym_tags table cl tags =
     tags \<union> {canon. \<exists>syns. (canon, syns) \<in> set table \<and> (\<exists>syn \<in> set syns. contains cl (lower syn))}"
  by (induction table cl tags rule: add_synonym_tags.induct)
     (auto simp: any_synonym_in_iff)

lemma add_finance_tags_eq:
  "add_finance_tags table cl tags =
     tags \<union> {replace_char (CHR '' '') (CHR ''_'') (lower t) | t desc.
               (t, desc) \<in> set table \<and> (contains cl (lower t) \<or> contains cl (lower desc))}"
  by (induction table cl tags rule: add_finance_tags.induct) auto

lemma normalize_tags_set_eq:
  "normalize_tags_set ts c = set ts \<union> synonym_tags c \<union> abbreviation_tags c"
  by (simp add: normalize_tags_set_def Let_def add_synonym_tags_eq add_finance_tags_eq
      synonym_tags_def abbreviation_tags_def)

lemma finite_normalize_tags_set: "finite (normalize_tags_set ts c)"
proof -
  have "finite (add_synonym_tags table cl tags)" if "finite tags" for table cl tags
    using that by (induction table cl tags rule: add_synonym_tags.induct) auto
  moreover have "finite (add_finance_tags table cl tags)" if "finite tags" for table cl tags
    using that by (induction table cl tags rule: add_finance_tags.induct) auto
  ultimately show ?thesis by (simp add: normalize_tags_set_def Let_def)
qed

lemma enumerates_sorted: "enumerates sorted_list_of_set"
  by (simp add: enumerates_def)

section \<open>Lemmas: classifiers and the page-text segmenter\<close>

lemma first_match_pdf: "pdf_classify_clause_type t = first_match pdf_rules (lower t)"
  by (simp add: pdf_classify_clause_type_def pdf_rules_def Let_def)

lemma pdf_purchase_sale_first:
  "contains (lower t) ''purchase'' \<or> contains (lower t) ''sale''
   \<Longrightarrow> pdf_classify_clause_type t = PURCHASE_AND_SALE"
  by (simp add: pdf_classify_clause_type_def Let_def)

lemma scan_line_texts_empty: "texts_empty st \<Longrightarrow> texts_empty (scan_line p st l)"
  by (auto simp: texts_empty_def scan_line_def Let_def split: option.splits prod.splits)

lemma foldl_scan_texts_empty:
  "texts_empty st \<Longrightarrow> texts_empty (foldl (scan_line p) st ls)"
  by (induction ls arbitrary: st) (simp_all add: scan_line_texts_empty)

lemma extract_sections_texts:
  "s \<in> set (butlast (extract_sections list_of t p)) \<Longrightarrow> sec_text s = []"
proof -
  let ?st = "foldl (scan_line p)
     \<lparr>sections = [], current_section = None, current_content = [], section_counter = 0\<rparr>
     (split_on newline t)"
  assume s: "s \<in> set (butlast (extract_sections list_of t p))"
  have "texts_empty ?st"
    by (rule foldl_scan_texts_empty) (simp add: texts_empty_def)
  then have all: "\<forall>x \<in> set (sections ?st). sec_text x = []"
    by (simp add: texts_empty_def list_all_iff)
  show ?thesis
  proof (cases "current_section ?st")
    case None
    with s have "s \<in> set (butlast (sections ?st))"
      by (simp add: extract_sections_def Let_def)
    then have "s \<in> set (sections ?st)" by (rule in_set_butlastD)
    with all show ?thesis by blast
  next
    case (Some cs)
    with s have "s \<in> set (sections ?st)"
      by (simp add: extract_sections_def Let_def butlast_append)
    with all show ?thesis by blast
  qed
qed


section \<open>Segmenter for page text: the text of closed sections\<close>

text \<open>
  C1. The claim holds that a section closed by the next heading is emitted with the text
  gathered since its own heading. \<open>_extract_sections\<close> of the page-text adapter creates
  every section with empty text and writes the gathered lines into the last section only,
  after the loop: by \<open>extract_sections_texts\<close> every section but the last is emitted with
  empty text. On a text with two headings, each followed by a line of body, the first
  section comes out empty; its heading and its body line are in no section.
\<close>

theorem extract_sections_drops_text:
  "map sec_id (extract_sections sorted_list_of_set two_section_text []) = [''1.1'', ''1.2'']
   \<and> map sec_text (extract_sections sorted_list_of_set two_section_text [])
       = ['''', ''1.2 Payment'' @ [newline] @ ''The Buyer pays monthly.'']"
  by code_simp

section \<open>Clause classification\<close>

text \<open>
  C2. The claim gives every title with a sale keyword and a price keyword the Purchase and
  Sale type, and has the rules tried on the title first and then on the content. The
  page-text adapter does try purchase and sale first (\<open>pdf_purchase_sale_first\<close>; its
  classifier is the first match of \<open>pdf_rules\<close> on the lower-cased title,
  \<open>first_match_pdf\<close>). The markup adapter's \<open>_classify_clause_type\<close> tries rate and price
  before delivery and sale, and never reads the content it is given and lower-cases: it
  classifies the title \<open>Sale Price\<close> as Price, where the page-text adapter returns Purchase
  and Sale, and a title that matches no rule as Other although the content holds
  \<open>purchase\<close> and \<open>price\<close>.
\<close>

theorem xml_classify_sale_price:
  "xml_classify_clause_type ''Sale Price'' ''The sale price is fixed.'' = PRICE
   \<and> pdf_classify_clause_type ''Sale Price'' = PURCHASE_AND_SALE
   \<and> xml_classify_clause_type ''Schedule A'' ''The purchase price is fixed.'' = OTHER"
  by code_simp

section \<open>Chunker: the size threshold\<close>





section \<open>Chunker: coverage of the sliding window\<close>

text \<open>
  C4 (amended). For a text longer than the threshold, the windows the loop cuts start at
  offset 0, their start offsets strictly increase, each window starts \<open>chunk_overlap\<close>
  characters before the end of its predecessor, and the last window reaches the end of
  the text; putting the windows' contents together, each later one without its overlap,
  gives back the text. The emitted chunks are those windows after \<open>strip()\<close>, the empty
  ones left out, so whitespace at a window's edge is in no chunk.
\<close>

theorem split_windows_cover:
  "max_chunk_size < length t \<longrightarrow>
     sorted_wrt (<) (map fst (windows t 0)) \<and>
     windows t 0 \<noteq> [] \<and> fst (hd (windows t 0)) = 0 \<and>
     length t \<le> snd (last (windows t 0)) \<and>
     successively (\<lambda>w w'. fst w' + chunk_overlap = snd w) (windows t 0) \<and>
     remove_overlaps (map (window_text t) (windows t 0)) = t \<and>
     split_text_with_overlap t
       = filter (\<lambda>c. c \<noteq> []) (map (\<lambda>w. strip (window_text t w)) (windows t 0))"
proof
  assume "max_chunk_size < length t"
  then have pos: "0 < length t" by (rule le_less_trans [OF le0])
  from windows_nonempty [OF pos] windows_hd [OF pos]
  obtain e ws where ws: "windows t 0 = (0, e) # ws"
    by (cases "windows t 0") (auto simp: prod_eq_iff)
  have "concat (map (\<lambda>w. drop chunk_overlap (window_text t w)) (windows t 0))
      = drop (0 + chunk_overlap) t"
    using pos by (rule windows_cover)
  then have "drop chunk_overlap (take e t)
      @ concat (map (\<lambda>w. drop chunk_overlap (window_text t w)) ws) = drop chunk_overlap t"
    by (simp add: ws window_text_def slice_def)
  moreover have "take chunk_overlap (take e t) = take chunk_overlap t"
  proof -
    have "0 + 901 \<le> window_end t 0" by (rule window_end_lower)
    moreover have "e = window_end t 0"
      using ws pos by (subst (asm) windows.simps) (simp add: Let_def)
    ultimately show ?thesis by (simp add: chunk_overlap_def min_def)
  qed
  ultimately have "take e t @ concat (map (\<lambda>w. drop chunk_overlap (window_text t w)) ws) = t"
    by (metis append_take_drop_id append_assoc)
  then have cover: "remove_overlaps (map (window_text t) (windows t 0)) = t"
    by (simp add: remove_overlaps_def ws window_text_def slice_def comp_def)
  show "sorted_wrt (<) (map fst (windows t 0)) \<and>
     windows t 0 \<noteq> [] \<and> fst (hd (windows t 0)) = 0 \<and>
     length t \<le> snd (last (windows t 0)) \<and>
     successively (\<lambda>w w'. fst w' + chunk_overlap = snd w) (windows t 0) \<and>
     remove_overlaps (map (window_text t) (windows t 0)) = t \<and>
     split_text_with_overlap t
       = filter (\<lambda>c. c \<noteq> []) (map (\<lambda>w. strip (window_text t w)) (windows t 0))"
    using windows_starts_increase [of t 0] windows_nonempty [OF pos] windows_hd [OF pos]
      windows_last_reaches_end [OF pos] windows_chain [of t 0] cover split_text_windows [of t]
    by blast
qed

theorem split_windows_cover_witness:
  "sorted_wrt (<) (map fst (windows leading_space_text 0)) \<and>
   windows leading_space_text 0 \<noteq> [] \<and> fst (hd (windows leading_space_text 0)) = 0 \<and>
   length leading_space_text \<le> snd (last (windows leading_space_text 0)) \<and>
   successively (\<lambda>w w'. fst w' + chunk_overlap = snd w) (windows leading_space_text 0) \<and>
   remove_overlaps (map (window_text leading_space_text) (windows leading_space_text 0))
     = leading_space_text \<and>
   split_text_with_overlap leading_space_text
     = filter (\<lambda>c. c \<noteq> [])
         (map (\<lambda>w. strip (window_text leading_space_text w)) (windows leading_space_text 0))"
proof -
  have "max_chunk_size < length leading_space_text"
    by (simp add: max_chunk_size_def leading_space_text_def)
  with split_windows_cover [of leading_space_text] show ?thesis by blast
qed

text \<open>
  The claim as stated speaks of the emitted chunk contents. On a text that starts with a
  space the first chunk has lost that space, so the chunks put together (overlaps
  removed) are one character short of the text.
\<close>

theorem split_cover_counterexample:
  "remove_overlaps (split_text_with_overlap leading_space_text) = replicate 1000 (CHR ''a'')
   \<and> remove_overlaps (split_text_with_overlap leading_space_text) \<noteq> leading_space_text"
proof -
  have "replicate 999 (CHR ''a'') @ replicate 1 (CHR ''a'') = replicate (999 + 1) (CHR ''a'')"
    by (simp only: replicate_add)
  then have r: "remove_overlaps (split_text_with_overlap leading_space_text)
      = replicate 1000 (CHR ''a'')"
    by (simp add: split_leading_space_text remove_overlaps_def chunk_overlap_def)
  have "length (replicate 1000 (CHR ''a'')) \<noteq> length leading_space_text"
    by (simp add: leading_space_text_def)
  then have "replicate 1000 (CHR ''a'') \<noteq> leading_space_text" by fastforce
  with r show ?thesis by simp
qed

section \<open>Chunker: blank text\<close>

text \<open>
  C8 (amended). No function of the chunker has a failing branch and the window loop
  terminates, so chunking a section always returns. For a section whose text is empty or
  whitespace only it yields one chunk holding the text as it is when the text has at most
  1000 characters, and no chunk when it is longer: zero or one chunk. For a text longer
  than 1000 characters no emitted chunk is blank.
\<close>

theorem chunk_section_blank:
  "(blank (sec_text s) \<longrightarrow>
      (if length (sec_text s) \<le> max_chunk_size
       then map pc_content (chunk_section d s) = [sec_text s]
       else chunk_section d s = [])
      \<and> length (chunk_section d s) \<le> 1)
   \<and> (max_chunk_size < length (sec_text s) \<longrightarrow>
        (\<forall>c \<in> set (chunk_section d s). \<not> blank (pc_content c)))"
proof (intro conjI impI)
  assume b: "blank (sec_text s)"
  show "if length (sec_text s) \<le> max_chunk_size
       then map pc_content (chunk_section d s) = [sec_text s]
       else chunk_section d s = []"
    using split_blank [OF b]
    by (simp add: chunk_section_def Let_def clause_chunk_def)
  then show "length (chunk_section d s) \<le> 1"
    by (cases "length (sec_text s) \<le> max_chunk_size") (simp_all add: chunk_section_short)
next
  assume long: "max_chunk_size < length (sec_text s)"
  show "\<forall>c \<in> set (chunk_section d s). \<not> blank (pc_content c)"
  proof
    fix c assume "c \<in> set (chunk_section d s)"
    then have "pc_content c \<in> set (map pc_content (chunk_section d s))" by simp
    then have "pc_content c \<in> set (split_text_with_overlap (sec_text s))"
      by (simp only: chunk_section_long_contents [OF long])
    then show "\<not> blank (pc_content c)" by (simp add: split_chunk_not_blank)
  qed
qed

theorem chunk_section_blank_witness:
  "map pc_content (chunk_section (example_document [] []) (example_section ''4'' ''  '')) = [''  '']
   \<and> chunk_section (example_document [] [])
        (example_section ''4'' (replicate 1001 (CHR '' ''))) = []
   \<and> list_all (\<lambda>c. \<not> blank (pc_content c))
        (chunk_section (example_document [] []) (example_section ''4'' leading_space_text))"
  using chunk_section_blank [of "example_section ''4'' ''  ''" "example_document [] []"]
    chunk_section_blank [of "example_section ''4'' (replicate 1001 (CHR '' ''))" "example_document [] []"]
    chunk_section_blank [of "example_section ''4'' leading_space_text" "example_document [] []"]
  by (simp add: example_section_def blank_replicate_space max_chunk_size_def list_all_iff
      leading_space_text_def blank_def isspace_def)

text \<open>
  The claim as stated (no emitted chunk ever has blank content) fails on a section with
  empty text: its one chunk has the empty string as content.
\<close>

theorem chunk_section_blank_counterexample:
  "map pc_content (chunk_section (example_document [] []) (example_section ''4'' '''')) = ['''']"
  by (simp add: chunk_section_def example_section_def max_chunk_size_def Let_def clause_chunk_def)

section \<open>Chunker: definition chunks\<close>

text \<open>
  C5 (amended). For every Definition of a document the chunker emits exactly one chunk of
  chunk type \<open>definition\<close>: the definition chunks of \<open>chunk_document\<close> are the images of the
  document's definitions, in order. Its content is the term in double quotes, followed by
  \<open>means\<close> and the definition text; its tags are \<open>definition\<close> and the lower-cased term
  with spaces replaced by underscores; its chunk id is the document id, \<open>_def_\<close> and the
  first eight characters of the digest of the term; its section id is the Definition's
  section id, or \<open>definitions\<close> when that is absent or the empty string.
\<close>

theorem chunk_definition_shape:
  "filter (\<lambda>c. cm_chunk_type (pc_metadata c) = ''definition'') (chunk_document H d)
     = map (chunk_definition H d) (doc_definitions d)
   \<and> cm_chunk_type (pc_metadata (chunk_definition H d df)) = ''definition''
   \<and> pc_content (chunk_definition H d df)
       = [dquote] @ def_term df @ [dquote] @ '' means '' @ def_definition df
   \<and> set (cm_tags (pc_metadata (chunk_definition H d df)))
       = {''definition'', replace_char (CHR '' '') (CHR ''_'') (lower (def_term df))}
   \<and> cm_chunk_id (pc_metadata (chunk_definition H d df))
       = md_document_id (doc_metadata d) @ ''_def_'' @ take 8 (H (def_term df))
   \<and> cm_section_id (pc_metadata (chunk_definition H d df))
       = (case def_section_id df of
            None \<Rightarrow> ''definitions''
          | Some sid \<Rightarrow> if sid = [] then ''definitions'' else sid)"
  by (simp add: definition_chunks_of_document) (simp add: chunk_definition_def hash_string_def)

theorem chunk_definition_shape_witness:
  "pc_content (chunk_definition example_md5 (example_document [] []) (example_definition (Some ''1.1'')))
       = [dquote] @ ''Delivery Point'' @ [dquote] @ '' means the point of interconnection.''
   \<and> set (cm_tags (pc_metadata
         (chunk_definition example_md5 (example_document [] []) (example_definition (Some ''1.1'')))))
       = {''definition'', ''delivery_point''}
   \<and> cm_chunk_id (pc_metadata
         (chunk_definition example_md5 (example_document [] []) (example_definition (Some ''1.1''))))
       = ''doc1_def_9f86d081''
   \<and> cm_section_id (pc_metadata
         (chunk_definition example_md5 (example_document [] []) (example_definition (Some ''1.1''))))
       = ''1.1''
   \<and> cm_section_id (pc_metadata
         (chunk_definition example_md5 (example_document [] []) (example_definition None)))
       = ''definitions''"
proof -
  have t: "replace_char (CHR '' '') (CHR ''_'') (lower ''Delivery Point'') = ''delivery_point''"
    by code_simp
  show ?thesis
    using chunk_definition_shape [of example_md5 "example_document [] []" "example_definition (Some ''1.1'')"]
      chunk_definition_shape [of example_md5 "example_document [] []" "example_definition None"]
    by (simp add: example_definition_def example_document_def example_metadata_def example_md5_def t)
qed

text \<open>
  The claim as stated gives the sentinel only to a Definition without a section id. A
  Definition whose section id is present and empty gets the sentinel too, since
  \<open>section_id or "definitions"\<close> treats the empty string as it treats \<open>None\<close>.
\<close>

theorem chunk_definition_empty_id_counterexample:
  "def_section_id (example_definition (Some '''')) = Some ''''
   \<and> cm_section_id (pc_metadata
         (chunk_definition example_md5 (example_document [] []) (example_definition (Some ''''))))
       = ''definitions''"
  by (simp add: chunk_definition_def example_definition_def)

section \<open>Chunker: determinism\<close>

text \<open>
  C6. \<open>chunk_document\<close> reads the document and nothing else, and changes nothing, so a run
  is an application of the function and two runs on the same document give the same list.
  More is true: the list depends only on the document id, the title, the sections and
  the definitions. Two documents that agree on these (they may differ in the processing
  date, say) are chunked into identical lists: the same number of chunks, in the same
  order, with the same content and the same chunk ids.
\<close>

theorem chunk_document_deterministic:
  "md_document_id (doc_metadata d) = md_document_id (doc_metadata d') \<and>
   md_title (doc_metadata d) = md_title (doc_metadata d') \<and>
   doc_sections d = doc_sections d' \<and> doc_definitions d = doc_definitions d'
   \<longrightarrow> chunk_document H d = chunk_document H d' \<and>
       length (chunk_document H d) = length (chunk_document H d') \<and>
       map pc_content (chunk_document H d) = map pc_content (chunk_document H d') \<and>
       map (\<lambda>c. cm_chunk_id (pc_metadata c)) (chunk_document H d)
         = map (\<lambda>c. cm_chunk_id (pc_metadata c)) (chunk_document H d')"
proof
  assume a: "md_document_id (doc_metadata d) = md_document_id (doc_metadata d') \<and>
   md_title (doc_metadata d) = md_title (doc_metadata d') \<and>
   doc_sections d = doc_sections d' \<and> doc_definitions d = doc_definitions d'"
  have cc: "clause_chunk d = clause_chunk d'"
    using a by (intro ext) (simp add: clause_chunk_def)
  have s: "chunk_section d = chunk_section d'"
    by (intro ext) (unfold chunk_section_def cc, rule refl)
  have f: "chunk_definition H d = chunk_definition H d'"
    using a by (intro ext) (simp add: chunk_definition_def)
  have "chunk_document H d = chunk_document H d'"
    using a by (simp add: chunk_document_eq s f)
  then show "chunk_document H d = chunk_document H d' \<and>
       length (chunk_document H d) = length (chunk_document H d') \<and>
       map pc_content (chunk_document H d) = map pc_content (chunk_document H d') \<and>
       map (\<lambda>c. cm_chunk_id (pc_metadata c)) (chunk_document H d)
         = map (\<lambda>c. cm_chunk_id (pc_metadata c)) (chunk_document H d')"
    by simp
qed

theorem chunk_document_deterministic_witness:
  "chunk_document example_md5
     (example_document [example_section ''3.1'' ''Payment is due.''] [example_definition None])
   = chunk_document example_md5
       ((example_document [example_section ''3.1'' ''Payment is due.''] [example_definition None])
          \<lparr>doc_metadata := example_metadata\<lparr>md_processing_date := 86400\<rparr>\<rparr>)"
  using chunk_document_deterministic
    [of "example_document [example_section ''3.1'' ''Payment is due.''] [example_definition None]"
        "(example_document [example_section ''3.1'' ''Payment is due.''] [example_definition None])
          \<lparr>doc_metadata := example_metadata\<lparr>md_processing_date := 86400\<rparr>\<rparr>"
        example_md5]
  by (simp add: example_document_def)

section \<open>Chunker: heading anchors of the chunks\<close>

text \<open>
  C7. For a section whose identifier is a dotted number the chunks carry the identifier as
  heading number, the number of components as level and the identifier without its last
  component as parent (\<open>chunk_section_dotted_heading\<close>). The claim also gives a section with
  identifier \<open>5\<close> heading level 1 and no parent. \<open>_chunk_section\<close> takes the anchor from
  the identifier only when the identifier has a dot, and otherwise looks for a dotted
  number at the start of the section's text. So a section with identifier \<open>5\<close> has no
  heading level when its text starts with no dotted number, and level 2 with parent \<open>5\<close>
  when its text starts with \<open>5.1\<close>. No chunk ever has heading level 1
  (\<open>chunk_section_level_not_1\<close>), though the schema documents the levels 1, 2, 3 and the
  code has a branch for level 1.
\<close>

theorem heading_level_of_undotted_id:
  "map (\<lambda>c. (cm_heading_level (pc_metadata c), cm_parent_heading_number (pc_metadata c)))
     (chunk_section (example_document [] []) (example_section ''5'' ''Payment is due.''))
     = [(None, None)]
   \<and> map (\<lambda>c. (cm_heading_level (pc_metadata c), cm_parent_heading_number (pc_metadata c)))
     (chunk_section (example_document [] []) (example_section ''5'' ''5.1 Payment is due.''))
     = [(Some 2, Some ''5'')]"
proof -
  have "heading_anchor (example_section ''5'' ''Payment is due.'') = (None, None, None)"
    by code_simp
  moreover have "heading_anchor (example_section ''5'' ''5.1 Payment is due.'')
      = (Some ''5.1'', Some 2, Some ''5'')"
    by code_simp
  ultimately show ?thesis
    by (simp add: chunk_section_def example_section_def max_chunk_size_def Let_def
        clause_chunk_def)
qed

section \<open>Normalizer: tags\<close>

text \<open>
  C9. Whatever order \<open>list(tags)\<close> takes, the tags returned by tag normalization are, as a
  set, the input tags together with every canonical term one of whose synonyms occurs in
  the content (case ignored) and the tags of the abbreviations that occur in it. Hence
  normalizing the result again with the same content gives the same set.
\<close>

theorem normalize_tags_union:
  "enumerates list_of \<longrightarrow>
     set (normalize_tags list_of ts c) = set ts \<union> synonym_tags c \<union> abbreviation_tags c
     \<and> set (normalize_tags list_of (normalize_tags list_of ts c) c)
         = set (normalize_tags list_of ts c)"
proof
  assume e: "enumerates list_of"
  have s: "set (normalize_tags list_of xs c) = normalize_tags_set xs c" for xs
    using e finite_normalize_tags_set [of xs c]
    by (simp add: normalize_tags_def enumerates_def)
  show "set (normalize_tags list_of ts c) = set ts \<union> synonym_tags c \<union> abbreviation_tags c
     \<and> set (normalize_tags list_of (normalize_tags list_of ts c) c)
         = set (normalize_tags list_of ts c)"
    by (auto simp: s normalize_tags_set_eq)
qed

theorem normalize_tags_union_witness:
  "set (normalize_tags sorted_list_of_set [''pricing''] ''Disputes go to Arbitration.'')
     = {''pricing'', ''dispute_resolution''}
   \<and> set (normalize_tags sorted_list_of_set
          (normalize_tags sorted_list_of_set [''pricing''] ''Disputes go to Arbitration.'')
          ''Disputes go to Arbitration.'')
     = {''pricing'', ''dispute_resolution''}"
proof -
  have "normalize_tags_set [''pricing''] ''Disputes go to Arbitration.''
      = {''pricing'', ''dispute_resolution''}"
    by code_simp
  then have "set [''pricing''] \<union> synonym_tags ''Disputes go to Arbitration.''
      \<union> abbreviation_tags ''Disputes go to Arbitration.'' = {''pricing'', ''dispute_resolution''}"
    by (simp only: normalize_tags_set_eq)
  with normalize_tags_union [of sorted_list_of_set "[''pricing'']" "''Disputes go to Arbitration.''"]
    enumerates_sorted
  show ?thesis by simp
qed

section \<open>Normalizer: what a document keeps\<close>

text \<open>
  C10. \<open>_normalize_document\<close> returns the reference it was given and changes the store at
  that reference only. Of the document there it changes the tags and the text of the
  sections: the metadata, the definitions, the number and order of the sections and each
  section's id, title, clause type, referenced definitions, parent section and page number
  stay as they were. The new tags are computed from the old tags and the old text, the
  new text from the old text.
\<close>

theorem normalize_document_frame:
  "fst (normalize_document list_of r h) = r
   \<and> (\<forall>r'. r' \<noteq> r \<longrightarrow> snd (normalize_document list_of r h) r' = h r')
   \<and> doc_metadata (snd (normalize_document list_of r h) r) = doc_metadata (h r)
   \<and> doc_definitions (snd (normalize_document list_of r h) r) = doc_definitions (h r)
   \<and> length (doc_sections (snd (normalize_document list_of r h) r)) = length (doc_sections (h r))
   \<and> map sec_id (doc_sections (snd (normalize_document list_of r h) r))
       = map sec_id (doc_sections (h r))
   \<and> map sec_title (doc_sections (snd (normalize_document list_of r h) r))
       = map sec_title (doc_sections (h r))
   \<and> map sec_clause_type (doc_sections (snd (normalize_document list_of r h) r))
       = map sec_clause_type (doc_sections (h r))
   \<and> map sec_definitions (doc_sections (snd (normalize_document list_of r h) r))
       = map sec_definitions (doc_sections (h r))
   \<and> map sec_parent_section (doc_sections (snd (normalize_document list_of r h) r))
       = map sec_parent_section (doc_sections (h r))
   \<and> map sec_page_number (doc_sections (snd (normalize_document list_of r h) r))
       = map sec_page_number (doc_sections (h r))
   \<and> map sec_tags (doc_sections (snd (normalize_document list_of r h) r))
       = map (\<lambda>s. normalize_tags list_of (sec_tags s) (sec_text s)) (doc_sections (h r))
   \<and> map sec_text (doc_sections (snd (normalize_document list_of r h) r))
       = map (\<lambda>s. normalize_terminology (sec_text s)) (doc_sections (h r))"
proof -
  have n: "normalize_document list_of r h =
      (r, h(r := (h r)\<lparr>doc_sections :=
              map set_section_text (map (set_section_tags list_of) (doc_sections (h r)))\<rparr>))"
    by (simp add: normalize_document_def Let_def)
  show ?thesis
    unfolding n by (simp add: set_section_tags_def set_section_text_def comp_def)
qed





theorem normalize_document_frame_witness:
  "fst (normalize_document sorted_list_of_set 0 example_store) = 0
   \<and> snd (normalize_document sorted_list_of_set 0 example_store) 1 = example_store 1
   \<and> doc_metadata (snd (normalize_document sorted_list_of_set 0 example_store) 0)
       = example_metadata
   \<and> doc_definitions (snd (normalize_document sorted_list_of_set 0 example_store) 0) = []
   \<and> map sec_id (doc_sections (snd (normalize_document sorted_list_of_set 0 example_store) 0))
       = [''3.1'']
   \<and> map sec_title (doc_sections (snd (normalize_document sorted_list_of_set 0 example_store) 0))
       = [''Payment'']
   \<and> map sec_text (doc_sections (snd (normalize_document sorted_list_of_set 0 example_store) 0))
       = [normalize_terminology ''Disputes go to Arbitration.'']"
  using normalize_document_frame [of sorted_list_of_set 0 example_store]
  by (simp add: example_store_def example_document_def example_section_def)

end
